theory Spec2Isabelle
  imports Main "HOL-Library.Word"
begin

section \<open>JavaScript data: bytes, code units, strings, errors\<close>

text \<open>
  A JavaScript string is a sequence of 16-bit UTF-16 code units; a \<open>Uint8Array\<close> or
  \<open>ArrayBuffer\<close> is a sequence of bytes. The arithmetic of the codecs is done on the
  unsigned values (\<open>unat\<close>); \<open>byte_of\<close> and \<open>unit_of\<close> are the stores into an 8-bit
  and a 16-bit cell (they wrap around).
\<close>

type_synonym byte = "8 word"
type_synonym code_unit = "16 word"
type_synonym jsstring = "code_unit list"

definition byte_of :: "nat \<Rightarrow> byte" where
  "byte_of n = of_nat n"

definition unit_of :: "nat \<Rightarrow> code_unit" where
  "unit_of n = of_nat n"

text \<open>An ASCII string literal of the source, as a JavaScript string.\<close>

definition js :: "string \<Rightarrow> jsstring" where
  "js s = map (\<lambda>c. unit_of (of_char c)) s"

text \<open>
  What a \<open>throw\<close> or a rejected promise carries. The DOM exceptions are raised by the
  platform (\<open>atob\<close>, \<open>btoa\<close>, \<open>crypto.subtle\<close>, \<open>JSON.parse\<close>); \<open>Error msg\<close> is
  \<open>new Error(msg)\<close> thrown by the code itself.
\<close>

datatype error =
    InvalidCharacterError
  | DataError
  | OperationError
  | SyntaxError
  | TypeError
  | Error string

section \<open>Platform: \<open>btoa\<close> and \<open>atob\<close>\<close>

text \<open>
  \<open>btoa\<close> is RFC 4648 base64 with padding over a binary string and throws when a code
  unit exceeds 0xFF. \<open>atob\<close> is the forgiving-base64 decode of the WHATWG Infra
  standard: ASCII whitespace is removed, one or two trailing \<open>=\<close> are removed when the
  length is a multiple of four, a length of 1 modulo 4 or a character outside the
  alphabet is a failure, and the trailing bits of an incomplete group are discarded.
\<close>

definition b64_char :: "nat \<Rightarrow> code_unit" where
  "b64_char n =
     (if n < 26 then unit_of (65 + n)
      else if n < 52 then unit_of (97 + (n - 26))
      else if n < 62 then unit_of (48 + (n - 52))
      else if n = 62 then unit_of 43
      else unit_of 47)"

definition b64_index :: "code_unit \<Rightarrow> nat option" where
  "b64_index c =
     (let u = unat c in
      if 65 \<le> u \<and> u \<le> 90 then Some (u - 65)
      else if 97 \<le> u \<and> u \<le> 122 then Some (u - 97 + 26)
      else if 48 \<le> u \<and> u \<le> 57 then Some (u - 48 + 52)
      else if u = 43 then Some 62
      else if u = 47 then Some 63
      else None)"

definition b64_value :: "code_unit \<Rightarrow> nat" where
  "b64_value c = (case b64_index c of Some v \<Rightarrow> v | None \<Rightarrow> 0)"

definition b64_pad :: code_unit where
  "b64_pad = unit_of 61"

fun sextets :: "nat list \<Rightarrow> nat list" where
  "sextets [] = []"
| "sextets [a] = [a div 4, (a mod 4) * 16]"
| "sextets [a, b] = [a div 4, (a mod 4) * 16 + b div 16, (b mod 16) * 4]"
| "sextets (a # b # c # r) =
     [a div 4, (a mod 4) * 16 + b div 16, (b mod 16) * 4 + c div 64, c mod 64] @ sextets r"

fun b64_padding :: "nat list \<Rightarrow> jsstring" where
  "b64_padding [] = []"
| "b64_padding [a] = [b64_pad, b64_pad]"
| "b64_padding [a, b] = [b64_pad]"
| "b64_padding (a # b # c # r) = b64_padding r"

definition b64_encode :: "nat list \<Rightarrow> jsstring" where
  "b64_encode ns = map b64_char (sextets ns) @ b64_padding ns"

definition btoa :: "jsstring \<Rightarrow> error + jsstring" where
  "btoa s =
     (if list_ex (\<lambda>c. 255 < unat c) s then Inl InvalidCharacterError
      else Inr (b64_encode (map unat s)))"

definition ascii_whitespace :: "code_unit \<Rightarrow> bool" where
  "ascii_whitespace c =
     (let u = unat c in u = 9 \<or> u = 10 \<or> u = 12 \<or> u = 13 \<or> u = 32)"

definition drop_pad :: "jsstring \<Rightarrow> jsstring" where
  "drop_pad d = (if d \<noteq> [] \<and> last d = b64_pad then butlast d else d)"

definition strip_padding :: "jsstring \<Rightarrow> jsstring" where
  "strip_padding d = (if length d mod 4 = 0 then drop_pad (drop_pad d) else d)"

fun b64_decode :: "nat list \<Rightarrow> nat list" where
  "b64_decode (a # b # c # d # r) =
     (let n = a * 262144 + b * 4096 + c * 64 + d
      in [n div 65536, (n div 256) mod 256, n mod 256] @ b64_decode r)"
| "b64_decode [a, b, c] =
     (let n = (a * 4096 + b * 64 + c) div 4 in [n div 256, n mod 256])"
| "b64_decode [a, b] = [(a * 64 + b) div 16]"
| "b64_decode [a] = []"
| "b64_decode [] = []"

definition atob :: "jsstring \<Rightarrow> error + jsstring" where
  "atob s =
     (let d = strip_padding (filter (\<lambda>c. \<not> ascii_whitespace c) s)
      in if length d mod 4 = 1 then Inl InvalidCharacterError
         else if list_ex (\<lambda>c. b64_index c = None) d then Inl InvalidCharacterError
         else Inr (map unit_of (b64_decode (map b64_value d))))"

section \<open>Platform: \<open>TextEncoder\<close> and \<open>TextDecoder\<close>\<close>

text \<open>
  \<open>TextEncoder.encode\<close> takes a \<open>USVString\<close>: the conversion replaces every unpaired
  surrogate by U+FFFD, then the scalar values are written in UTF-8.
\<close>

definition is_lead :: "nat \<Rightarrow> bool" where
  "is_lead c = (55296 \<le> c \<and> c < 56320)"

definition is_trail :: "nat \<Rightarrow> bool" where
  "is_trail c = (56320 \<le> c \<and> c < 57344)"

fun to_usv :: "nat list \<Rightarrow> nat list" where
  "to_usv [] = []"
| "to_usv [c] = (if is_lead c \<or> is_trail c then [65533] else [c])"
| "to_usv (c # d # r) =
     (if is_lead c then
        (if is_trail d then (65536 + (c - 55296) * 1024 + (d - 56320)) # to_usv r
         else 65533 # to_usv (d # r))
      else if is_trail c then 65533 # to_usv (d # r)
      else c # to_usv (d # r))"

definition is_scalar :: "nat \<Rightarrow> bool" where
  "is_scalar cp = (cp < 1114112 \<and> \<not> is_lead cp \<and> \<not> is_trail cp)"

definition utf8_encode_cp :: "nat \<Rightarrow> nat list" where
  "utf8_encode_cp cp =
     (if cp < 128 then [cp]
      else if cp < 2048 then [192 + cp div 64, 128 + cp mod 64]
      else if cp < 65536 then
        [224 + cp div 4096, 128 + (cp div 64) mod 64, 128 + cp mod 64]
      else
        [240 + cp div 262144, 128 + (cp div 4096) mod 64,
         128 + (cp div 64) mod 64, 128 + cp mod 64])"

definition TextEncoder_encode :: "jsstring \<Rightarrow> byte list" where
  "TextEncoder_encode s =
     map byte_of (concat (map utf8_encode_cp (to_usv (map unat s))))"

text \<open>
  The UTF-8 decoder of the WHATWG Encoding standard, in replacement mode (the default
  of \<open>new TextDecoder()\<close>, \<open>fatal = false\<close>). Its state is the code point under
  construction, the bytes seen and needed, and the bounds of the next continuation
  byte. A byte outside the bounds ends the sequence with U+FFFD and is read again
  from the initial state.
\<close>

function utf8_decode_from ::
    "nat \<Rightarrow> nat \<Rightarrow> nat \<Rightarrow> nat \<Rightarrow> nat \<Rightarrow> nat list \<Rightarrow> nat list" where
  "utf8_decode_from cp seen needed lo hi [] = (if needed \<noteq> 0 then [65533] else [])"
| "utf8_decode_from cp seen needed lo hi (b # bs) =
     (if needed = 0 then
        (if b \<le> 127 then b # utf8_decode_from 0 0 0 128 191 bs
         else if 194 \<le> b \<and> b \<le> 223 then utf8_decode_from (b mod 32) 0 1 128 191 bs
         else if 224 \<le> b \<and> b \<le> 239 then
           utf8_decode_from (b mod 16) 0 2
             (if b = 224 then 160 else 128) (if b = 237 then 159 else 191) bs
         else if 240 \<le> b \<and> b \<le> 244 then
           utf8_decode_from (b mod 8) 0 3
             (if b = 240 then 144 else 128) (if b = 244 then 143 else 191) bs
         else 65533 # utf8_decode_from 0 0 0 128 191 bs)
      else if b < lo \<or> hi < b then 65533 # utf8_decode_from 0 0 0 128 191 (b # bs)
      else if seen + 1 \<noteq> needed then
        utf8_decode_from (cp * 64 + b mod 64) (seen + 1) needed 128 191 bs
      else (cp * 64 + b mod 64) # utf8_decode_from 0 0 0 128 191 bs)"
  by pat_completeness auto
termination
  by (relation "measure (\<lambda>(cp, seen, needed, lo, hi, bs).
        2 * length bs + (if needed = 0 then 0 else 1))") auto

definition utf8_decode :: "nat list \<Rightarrow> nat list" where
  "utf8_decode bs = utf8_decode_from 0 0 0 128 191 bs"

text \<open>
  \<open>new TextDecoder()\<close> has \<open>ignoreBOM = false\<close>: a leading U+FEFF is dropped from the
  output. The code points are then written as UTF-16.
\<close>

definition strip_bom :: "nat list \<Rightarrow> nat list" where
  "strip_bom cps = (case cps of [] \<Rightarrow> [] | c # r \<Rightarrow> if c = 65279 then r else c # r)"

definition utf16_units :: "nat \<Rightarrow> nat list" where
  "utf16_units cp =
     (if cp < 65536 then [cp]
      else [55296 + (cp - 65536) div 1024, 56320 + (cp - 65536) mod 1024])"

definition TextDecoder_decode :: "byte list \<Rightarrow> jsstring" where
  "TextDecoder_decode bs =
     map unit_of (concat (map utf16_units (strip_bom (utf8_decode (map unat bs)))))"

text \<open>\<open>String.prototype.isWellFormed\<close>: no unpaired surrogate.\<close>

fun well_formed_units :: "nat list \<Rightarrow> bool" where
  "well_formed_units [] = True"
| "well_formed_units [c] = (\<not> is_lead c \<and> \<not> is_trail c)"
| "well_formed_units (c # d # r) =
     (if is_lead c then is_trail d \<and> well_formed_units r
      else \<not> is_trail c \<and> well_formed_units (d # r))"

definition isWellFormed :: "jsstring \<Rightarrow> bool" where
  "isWellFormed s = well_formed_units (map unat s)"

text \<open>Does the string start with U+FEFF, the byte order mark?\<close>

definition starts_with_bom :: "jsstring \<Rightarrow> bool" where
  "starts_with_bom s = (case s of [] \<Rightarrow> False | c # r \<Rightarrow> unat c = 65279)"

section \<open>Platform: exceptions, Web Crypto, the random source, JSON\<close>

text \<open>
  A call that may throw (or an awaited promise that may reject) is a value of
  \<open>error + 'a\<close>. \<open>andThen\<close> sequences two such steps: the second runs only when the
  first has returned. \<open>try_catch\<close> is \<open>try { body } catch (error) { handler }\<close>.
  \<open>console.error\<close> and \<open>console.log\<close> only write to the console and are left out.
\<close>

definition andThen :: "error + 'a \<Rightarrow> ('a \<Rightarrow> error + 'b) \<Rightarrow> error + 'b" where
  "andThen m k = (case m of Inl e \<Rightarrow> Inl e | Inr v \<Rightarrow> k v)"

definition try_catch :: "error + 'a \<Rightarrow> (error \<Rightarrow> error + 'a) \<Rightarrow> error + 'a" where
  "try_catch body handler = (case body of Inl e \<Rightarrow> handler e | Inr v \<Rightarrow> Inr v)"

text \<open>
  \<open>crypto.subtle\<close> and \<open>JSON\<close> belong to the browser, not to the repository: they are
  parameters of the model. A \<open>CryptoKey\<close> handle is identified with its key material;
  key usages and the extractable flag are not modelled. The \<open>nat\<close> argument of
  \<open>generateKey\<close> and \<open>rsa_oaep_encrypt\<close> is the entropy the call consumes inside the
  browser. The algorithm parameters the source passes as constants are arguments where
  they vary in the source (\<open>modulusLength\<close>, \<open>iterations\<close>); the hash is always SHA-256.

  \<open>JSON_stringify_blob (salt, iv, data)\<close> is
  \<open>JSON.stringify({salt: Array.from(salt), iv: Array.from(iv), data: Array.from(data)})\<close>;
  \<open>JSON_parse_blob s\<close> is \<open>JSON.parse(s)\<close>, the destructuring \<open>{ salt, iv, data }\<close> and
  the three \<open>new Uint8Array(...)\<close> conversions, \<open>Inl\<close> when any of them throws.
\<close>

datatype cryptokey = CryptoKey (key_material: "byte list")

record platform =
  generateKey :: "nat \<Rightarrow> nat \<Rightarrow> error + (cryptokey \<times> cryptokey)"
  exportKey_spki :: "cryptokey \<Rightarrow> error + byte list"
  exportKey_pkcs8 :: "cryptokey \<Rightarrow> error + byte list"
  importKey_spki :: "byte list \<Rightarrow> error + cryptokey"
  importKey_pkcs8 :: "byte list \<Rightarrow> error + cryptokey"
  importKey_raw :: "byte list \<Rightarrow> error + cryptokey"
  rsa_oaep_encrypt :: "cryptokey \<Rightarrow> nat \<Rightarrow> byte list \<Rightarrow> error + byte list"
  rsa_oaep_decrypt :: "cryptokey \<Rightarrow> byte list \<Rightarrow> error + byte list"
  deriveKey :: "byte list \<Rightarrow> nat \<Rightarrow> cryptokey \<Rightarrow> error + cryptokey"
  aes_gcm_encrypt :: "byte list \<Rightarrow> cryptokey \<Rightarrow> byte list \<Rightarrow> error + byte list"
  aes_gcm_decrypt :: "byte list \<Rightarrow> cryptokey \<Rightarrow> byte list \<Rightarrow> error + byte list"
  JSON_stringify_blob :: "byte list \<times> byte list \<times> byte list \<Rightarrow> jsstring"
  JSON_parse_blob :: "jsstring \<Rightarrow> error + (byte list \<times> byte list \<times> byte list)"

text \<open>
  \<open>crypto.getRandomValues(new Uint8Array(n))\<close>: the random source is the stream of
  bytes it has yet to hand out; a call takes the first \<open>n\<close> and leaves the rest.
\<close>

type_synonym rng = "nat \<Rightarrow> byte"

definition getRandomValues :: "nat \<Rightarrow> rng \<Rightarrow> byte list \<times> rng" where
  "getRandomValues n g = (map g [0..<n], (\<lambda>i. g (n + i)))"

text \<open>
  The largest message of RSA-OAEP (RFC 8017): the modulus length in bytes less twice
  the hash length (32 for SHA-256) less 2; 190 bytes for the 2048-bit key of the source.
\<close>

definition oaep_max_payload :: "nat \<Rightarrow> nat" where
  "oaep_max_payload modulusLength = modulusLength div 8 - 2 * 32 - 2"

section \<open>\<open>app/lib/encryption.ts\<close>\<close>

definition arrayBufferToBase64 :: "byte list \<Rightarrow> error + jsstring" where
  "arrayBufferToBase64 buffer = btoa (map (\<lambda>b. unit_of (unat b)) buffer)"

definition base64ToArrayBuffer :: "jsstring \<Rightarrow> error + byte list" where
  "base64ToArrayBuffer base64 =
     andThen (atob base64) (\<lambda>binary. Inr (map (\<lambda>c. byte_of (unat c)) binary))"

text \<open>
  The object \<open>generateKeyPair\<close> returns. Record fields carry a prefix naming their
  record (\<open>kp_\<close> here), so that the parameters of the functions keep the names they
  have in the source.
\<close>

record keypair =
  kp_publicKey :: jsstring
  kp_privateKey :: jsstring

definition generateKeyPair :: "platform \<Rightarrow> nat \<Rightarrow> error + keypair" where
  "generateKeyPair P entropy =
     andThen (generateKey P 2048 entropy) (\<lambda>(pub, priv).
     andThen (exportKey_spki P pub) (\<lambda>publicKeyRaw.
     andThen (exportKey_pkcs8 P priv) (\<lambda>privateKeyRaw.
     andThen (arrayBufferToBase64 publicKeyRaw) (\<lambda>pk.
     andThen (arrayBufferToBase64 privateKeyRaw) (\<lambda>sk.
     Inr \<lparr>kp_publicKey = pk, kp_privateKey = sk\<rparr>)))))"

definition encryptMessage :: "platform \<Rightarrow> nat \<Rightarrow> jsstring \<Rightarrow> jsstring \<Rightarrow> error + jsstring" where
  "encryptMessage P entropy plaintext receiverPublicKeyBase64 =
     try_catch
       (andThen (base64ToArrayBuffer receiverPublicKeyBase64) (\<lambda>publicKeyBuffer.
        andThen (importKey_spki P publicKeyBuffer) (\<lambda>publicKey.
        andThen (rsa_oaep_encrypt P publicKey entropy (TextEncoder_encode plaintext))
          (\<lambda>encryptedData. arrayBufferToBase64 encryptedData))))
       (\<lambda>error. Inl (Error ''Failed to encrypt message''))"

definition unable_to_decrypt :: jsstring where
  "unable_to_decrypt = js ''[Unable to decrypt message]''"

text \<open>The \<open>try\<close> block of \<open>decryptMessage\<close>, and the function with its \<open>catch\<close>.\<close>

definition decryptMessage_try :: "platform \<Rightarrow> jsstring \<Rightarrow> jsstring \<Rightarrow> error + jsstring" where
  "decryptMessage_try P encryptedBase64 privateKeyBase64 =
     andThen (base64ToArrayBuffer privateKeyBase64) (\<lambda>privateKeyBuffer.
     andThen (importKey_pkcs8 P privateKeyBuffer) (\<lambda>privateKey.
     andThen (base64ToArrayBuffer encryptedBase64) (\<lambda>encryptedData.
     andThen (rsa_oaep_decrypt P privateKey encryptedData) (\<lambda>decryptedData.
     Inr (TextDecoder_decode decryptedData)))))"

definition decryptMessage :: "platform \<Rightarrow> jsstring \<Rightarrow> jsstring \<Rightarrow> error + jsstring" where
  "decryptMessage P encryptedBase64 privateKeyBase64 =
     try_catch (decryptMessage_try P encryptedBase64 privateKeyBase64)
       (\<lambda>error. Inr unable_to_decrypt)"

text \<open>
  \<open>encryptPrivateKey\<close> draws the salt, derives the key, draws the IV and encrypts, all
  inside one \<open>try\<close> whose \<open>catch\<close> throws the one error; the random source is returned
  as the call leaves it (the IV is not drawn when the key derivation has thrown).
  In \<open>decryptPrivateKey\<close> the three \<open>new Uint8Array(...)\<close> run where the source has
  them, after the password is imported; every throw ends in the same \<open>catch\<close>, so
  taking them with the parse gives the same result.
\<close>

definition encryptPrivateKey ::
    "platform \<Rightarrow> rng \<Rightarrow> jsstring \<Rightarrow> jsstring \<Rightarrow> (error + jsstring) \<times> rng" where
  "encryptPrivateKey P g privateKey password =
     (let (salt, g1) = getRandomValues 16 g in
      case andThen (importKey_raw P (TextEncoder_encode password))
             (\<lambda>keyMaterial. deriveKey P salt 100000 keyMaterial) of
        Inl error \<Rightarrow> (Inl (Error ''Failed to encrypt private key''), g1)
      | Inr key \<Rightarrow>
          (let (iv, g2) = getRandomValues 12 g1 in
           (try_catch
              (andThen (aes_gcm_encrypt P iv key (TextEncoder_encode privateKey))
                 (\<lambda>encryptedData. Inr (JSON_stringify_blob P (salt, iv, encryptedData))))
              (\<lambda>error. Inl (Error ''Failed to encrypt private key'')),
            g2)))"

definition decryptPrivateKey :: "platform \<Rightarrow> jsstring \<Rightarrow> jsstring \<Rightarrow> error + jsstring" where
  "decryptPrivateKey P encryptedPrivateKey password =
     try_catch
       (andThen (JSON_parse_blob P encryptedPrivateKey) (\<lambda>(salt, iv, data).
        andThen (importKey_raw P (TextEncoder_encode password)) (\<lambda>keyMaterial.
        andThen (deriveKey P salt 100000 keyMaterial) (\<lambda>key.
        andThen (aes_gcm_decrypt P iv key data) (\<lambda>decryptedData.
        Inr (TextDecoder_decode decryptedData))))))
       (\<lambda>error. Inl (Error ''Invalid password or corrupted key''))"

text \<open>
  The values \<open>isValidKey\<close> can be handed at run time: its parameter is typed
  \<open>string | null | undefined\<close>, and the body also tests \<open>typeof\<close>.
\<close>

datatype jsvalue =
    JSUndefined
  | JSNull
  | JSBoolean bool
  | JSNumber int
  | JSString jsstring
  | JSObject

fun truthy :: "jsvalue \<Rightarrow> bool" where
  "truthy JSUndefined = False"
| "truthy JSNull = False"
| "truthy (JSBoolean b) = b"
| "truthy (JSNumber n) = (n \<noteq> 0)"
| "truthy (JSString s) = (s \<noteq> [])"
| "truthy JSObject = True"

fun typeof_string :: "jsvalue \<Rightarrow> bool" where
  "typeof_string (JSString s) = True"
| "typeof_string v = False"

fun isValidKey :: "jsvalue \<Rightarrow> bool" where
  "isValidKey key =
     (if \<not> truthy key \<or> \<not> typeof_string key then False
      else (case key of
              JSString s \<Rightarrow> (case atob s of Inl e \<Rightarrow> False | Inr binary \<Rightarrow> True)
            | other \<Rightarrow> False))"

section \<open>\<open>CryptoContext\<close>: the session key cache\<close>

text \<open>
  The three \<open>useState\<close> cells of \<open>CryptoProvider\<close>, \<open>null\<close> being \<open>None\<close>. A state of
  the model is what a render sees; \<open>setKeys\<close> and \<open>clearKeys\<close> give the state of the
  next render (React applies the state updates of one call together).
\<close>

record crypto_context =
  st_privateKey :: "jsstring option"
  st_publicKey :: "jsstring option"
  st_userId :: "jsstring option"

definition nullable :: "jsstring option \<Rightarrow> jsvalue" where
  "nullable v = (case v of None \<Rightarrow> JSNull | Some s \<Rightarrow> JSString s)"

definition initial_context :: crypto_context where
  "initial_context = \<lparr>st_privateKey = None, st_publicKey = None, st_userId = None\<rparr>"

definition setKeys :: "jsstring \<Rightarrow> jsstring \<Rightarrow> crypto_context \<Rightarrow> crypto_context" where
  "setKeys newPrivateKey newPublicKey st =
     (if \<not> isValidKey (JSString newPrivateKey) \<or> \<not> isValidKey (JSString newPublicKey)
      then st
      else st\<lparr>st_privateKey := Some newPrivateKey, st_publicKey := Some newPublicKey\<rparr>)"

definition clearKeys :: "crypto_context \<Rightarrow> crypto_context" where
  "clearKeys st = st\<lparr>st_privateKey := None, st_publicKey := None, st_userId := None\<rparr>"

definition hasKeys :: "crypto_context \<Rightarrow> bool" where
  "hasKeys st =
     (isValidKey (nullable (st_privateKey st)) \<and> isValidKey (nullable (st_publicKey st)))"

definition setUserId :: "jsstring option \<Rightarrow> crypto_context \<Rightarrow> crypto_context" where
  "setUserId uid st = st\<lparr>st_userId := uid\<rparr>"

section \<open>The database behind \<open>supabase\<close>\<close>

text \<open>
  The tables the modelled functions touch. A request that the database does not serve
  resolves with \<open>{ data: null, error }\<close>; the client does not reject. \<open>db_stamp\<close> gives
  the \<open>id\<close> and \<open>created_at\<close> the database assigns to the n-th row of \<open>messages\<close>.
\<close>

datatype postgrest_error = PostgrestError string

datatype 'a response = Response (resp_data: "'a option") (resp_error: "postgrest_error option")

record user_keys_row =
  uk_user_id :: jsstring
  uk_public_key :: jsstring
  uk_encrypted_private_key :: jsstring

record message =
  msg_id :: jsstring
  msg_sender_id :: jsstring
  msg_receiver_id :: jsstring
  msg_content :: jsstring
  msg_is_read :: bool
  msg_created_at :: jsstring
  msg_listing_id :: "jsstring option"

record database =
  db_user_keys :: "user_keys_row list"
  db_messages :: "message list"
  db_serving :: bool
  db_stamp :: "nat \<Rightarrow> jsstring \<times> jsstring"

text \<open>\<open>from('user_keys').select('public_key').eq('user_id', userId).single()\<close>\<close>

definition select_public_key :: "database \<Rightarrow> jsstring \<Rightarrow> error + jsstring response" where
  "select_public_key db userId =
     Inr (if \<not> db_serving db then Response None (Some (PostgrestError ''request failed''))
          else (case filter (\<lambda>r. uk_user_id r = userId) (db_user_keys db) of
                  [r] \<Rightarrow> Response (Some (uk_public_key r)) None
                | other \<Rightarrow> Response None (Some (PostgrestError ''PGRST116''))))"

text \<open>\<open>from('messages').insert({...}).select().single()\<close>\<close>

definition insert_message ::
    "database \<Rightarrow> jsstring \<Rightarrow> jsstring \<Rightarrow> jsstring \<Rightarrow> bool \<Rightarrow> jsstring option
       \<Rightarrow> (error + message response) \<times> database" where
  "insert_message db sender receiver body isRead listing =
     (if \<not> db_serving db
      then (Inr (Response None (Some (PostgrestError ''request failed''))), db)
      else (let (newId, createdAt) = db_stamp db (length (db_messages db));
                row = \<lparr>msg_id = newId, msg_sender_id = sender, msg_receiver_id = receiver,
                       msg_content = body, msg_is_read = isRead, msg_created_at = createdAt,
                       msg_listing_id = listing\<rparr>
            in (Inr (Response (Some row) None), db\<lparr>db_messages := db_messages db @ [row]\<rparr>)))"

section \<open>\<open>KeyService.getPublicKey\<close>\<close>

definition getPublicKey :: "database \<Rightarrow> jsstring \<Rightarrow> error + jsstring option" where
  "getPublicKey db userId =
     try_catch
       (andThen (select_public_key db userId) (\<lambda>r.
          if resp_error r \<noteq> None \<or> resp_data r = None then Inr None
          else Inr (resp_data r)))
       (\<lambda>error. Inr None)"

section \<open>\<open>MessageService\<close>\<close>

text \<open>
  \<open>dbLogger\<close> (from \<open>./utils\<close>) only logs and is left out, as \<open>console\<close> is.
  An optional string parameter (\<open>privateKey?: string\<close>) as a value: absent is
  \<open>undefined\<close>.
\<close>

definition optional :: "jsstring option \<Rightarrow> jsvalue" where
  "optional v = (case v of None \<Rightarrow> JSUndefined | Some s \<Rightarrow> JSString s)"

text \<open>\<open>listingId || null\<close> and \<open>message.listing_id || "general"\<close>: an empty string is falsy.\<close>

definition or_null :: "jsstring option \<Rightarrow> jsstring option" where
  "or_null v = (if truthy (optional v) then v else None)"

definition or_else :: "jsstring option \<Rightarrow> jsstring \<Rightarrow> jsstring" where
  "or_else v d = (case v of None \<Rightarrow> d | Some s \<Rightarrow> if s = [] then d else s)"

text \<open>
  \<open>sendMessage\<close>: \<open>encryptionEnabled\<close> defaults to \<open>true\<close>. The first component of the
  result is what the promise settles with (\<open>Inr None\<close> is \<open>null\<close>), the second the
  database after the call.
\<close>

definition contentToStore ::
    "platform \<Rightarrow> database \<Rightarrow> nat \<Rightarrow> jsstring \<Rightarrow> jsstring \<Rightarrow> bool \<Rightarrow> error + jsstring" where
  "contentToStore P db entropy receiverId content encryptionEnabled =
     (if encryptionEnabled then
        andThen (getPublicKey db receiverId) (\<lambda>receiverPublicKey.
          if \<not> truthy (nullable receiverPublicKey) then Inr content
          else (case receiverPublicKey of
                  Some k \<Rightarrow> encryptMessage P entropy content k
                | None \<Rightarrow> Inr content))
      else Inr content)"

definition sendMessage ::
    "platform \<Rightarrow> database \<Rightarrow> nat \<Rightarrow> jsstring \<Rightarrow> jsstring \<Rightarrow> jsstring \<Rightarrow> jsstring option
       \<Rightarrow> bool option \<Rightarrow> (error + message option) \<times> database" where
  "sendMessage P db entropy senderId receiverId content listingId encryptionEnabled =
     (case contentToStore P db entropy receiverId content
             (case encryptionEnabled of None \<Rightarrow> True | Some b \<Rightarrow> b) of
        Inl thrown \<Rightarrow> (Inr None, db)
      | Inr stored \<Rightarrow>
          (let (res, db') = insert_message db senderId receiverId stored False (or_null listingId)
           in (try_catch
                 (andThen res (\<lambda>r.
                    if resp_error r \<noteq> None then Inr None
                    else (case resp_data r of
                            None \<Rightarrow> Inl TypeError
                          | Some row \<Rightarrow> Inr (Some (row\<lparr>msg_content := content\<rparr>)))))
                 (\<lambda>error. Inr None),
               db')))"

text \<open>
  \<open>getMessages\<close>. \<open>buildMessageQuery\<close> lives in \<open>./utils\<close>; what the awaited query
  gives is the parameter \<open>query\<close>. \<open>decryptFetched\<close> is the callback of
  \<open>messages.map\<close>, \<open>promise_all\<close> is \<open>Promise.all\<close>.
\<close>

definition decryptFetched :: "platform \<Rightarrow> jsstring \<Rightarrow> jsstring \<Rightarrow> message \<Rightarrow> error + message" where
  "decryptFetched P userId privateKey msg =
     try_catch
       (if msg_receiver_id msg = userId then
          andThen (decryptMessage P (msg_content msg) privateKey)
            (\<lambda>decryptedContent. Inr (msg\<lparr>msg_content := decryptedContent\<rparr>))
        else if msg_sender_id msg = userId then Inr msg
        else Inr msg)
       (\<lambda>error. Inr msg)"

fun promise_all :: "(error + 'a) list \<Rightarrow> error + 'a list" where
  "promise_all [] = Inr []"
| "promise_all (p # ps) = andThen p (\<lambda>v. andThen (promise_all ps) (\<lambda>vs. Inr (v # vs)))"

definition getMessages ::
    "platform \<Rightarrow> jsstring \<Rightarrow> jsstring option \<Rightarrow> error + message list response
       \<Rightarrow> error + message list" where
  "getMessages P userId privateKey query =
     try_catch
       (andThen query (\<lambda>r.
          if resp_error r \<noteq> None then Inr []
          else (let messages = (case resp_data r of None \<Rightarrow> [] | Some d \<Rightarrow> d) in
                case privateKey of
                  None \<Rightarrow> Inr messages
                | Some k \<Rightarrow>
                    if truthy (JSString k) \<and> 0 < length messages
                    then promise_all (map (decryptFetched P userId k) messages)
                    else Inr messages)))
       (\<lambda>error. Inr [])"

text \<open>
  \<open>looksEncrypted\<close>: the regular expression \<open>/^[A-Za-z0-9+/=]+$/\<close> accepts a non-empty
  string of base64 alphabet characters and \<open>=\<close>.
\<close>

definition base64Regex_test :: "jsstring \<Rightarrow> bool" where
  "base64Regex_test s = (s \<noteq> [] \<and> list_all (\<lambda>c. b64_index c \<noteq> None \<or> c = b64_pad) s)"

definition looksEncrypted :: "jsstring \<Rightarrow> bool" where
  "looksEncrypted content =
     (if content = [] \<or> length content < 50 then False
      else base64Regex_test content \<and> 100 < length content)"

text \<open>The preview placeholder: U+1F512 (a surrogate pair) and \<open>" Encrypted message"\<close>.\<close>

definition encrypted_placeholder :: jsstring where
  "encrypted_placeholder = [unit_of 55357, unit_of 56594] @ js '' Encrypted message''"

record conversation =
  conv_user_id :: jsstring
  conv_user_name :: jsstring
  conv_user_image :: "jsstring option"
  conv_listing_id :: jsstring
  conv_listing_title :: jsstring
  conv_last_message :: jsstring
  conv_last_message_time :: jsstring
  conv_unread_count :: nat

record user_settings =
  us_id :: jsstring
  us_display_name :: "jsstring option"
  us_profile_image_url :: "jsstring option"

record listing =
  l_id :: jsstring
  l_title :: jsstring

text \<open>
  The body of the loop over \<open>filteredMessages\<close>: \<open>lastMessageOf\<close> is the block
  "Decrypt last message if possible", \<open>conversationKey\<close> the key of the \<open>Map\<close>.
  The \<open>Map\<close> is an association list in insertion order.
\<close>

definition lastMessageOf :: "platform \<Rightarrow> jsstring \<Rightarrow> jsstring option \<Rightarrow> message \<Rightarrow> error + jsstring" where
  "lastMessageOf P userId privateKey message =
     (case privateKey of
        Some k \<Rightarrow>
          if truthy (JSString k) \<and> msg_receiver_id message = userId then
            try_catch (decryptMessage P (msg_content message) k)
              (\<lambda>error. Inr encrypted_placeholder)
          else if looksEncrypted (msg_content message) then Inr encrypted_placeholder
          else Inr (msg_content message)
      | None \<Rightarrow>
          if looksEncrypted (msg_content message) then Inr encrypted_placeholder
          else Inr (msg_content message))"

definition partnerOf :: "jsstring \<Rightarrow> message \<Rightarrow> jsstring" where
  "partnerOf userId message =
     (if msg_sender_id message = userId then msg_receiver_id message
      else msg_sender_id message)"

definition conversationKey :: "jsstring \<Rightarrow> message \<Rightarrow> jsstring" where
  "conversationKey userId message =
     partnerOf userId message @ js '':'' @ or_else (msg_listing_id message) (js ''general'')"

definition unread :: "jsstring \<Rightarrow> message \<Rightarrow> bool" where
  "unread userId message = (msg_receiver_id message = userId \<and> \<not> msg_is_read message)"

fun conversationLoop ::
    "platform \<Rightarrow> jsstring \<Rightarrow> jsstring option \<Rightarrow> message list
       \<Rightarrow> (jsstring \<times> conversation) list \<Rightarrow> error + (jsstring \<times> conversation) list" where
  "conversationLoop P userId privateKey [] conversationMap = Inr conversationMap"
| "conversationLoop P userId privateKey (message # rest) conversationMap =
     andThen (lastMessageOf P userId privateKey message) (\<lambda>lastMessage.
       conversationLoop P userId privateKey rest
         (if map_of conversationMap (conversationKey userId message) = None then
            conversationMap @
              [(conversationKey userId message,
                \<lparr>conv_user_id = partnerOf userId message,
                 conv_user_name = [],
                 conv_user_image = None,
                 conv_listing_id = or_else (msg_listing_id message) (js ''general''),
                 conv_listing_title = [],
                 conv_last_message = lastMessage,
                 conv_last_message_time = msg_created_at message,
                 conv_unread_count = (if unread userId message then 1 else 0)\<rparr>)]
          else
            map (\<lambda>(k, conv).
                   if k = conversationKey userId message \<and> unread userId message
                   then (k, conv\<lparr>conv_unread_count := conv_unread_count conv + 1\<rparr>)
                   else (k, conv))
              conversationMap))"

text \<open>
  The two enrichment passes. \<open>buildUserSettingsQuery\<close> and \<open>buildListingQuery\<close> live
  in \<open>./utils\<close>; the awaited queries are parameters, and only their \<open>data\<close> is read.
\<close>

definition withUserInfo :: "user_settings list option \<Rightarrow> conversation \<Rightarrow> conversation" where
  "withUserInfo userSettingsData conv =
     (case userSettingsData of
        None \<Rightarrow> conv
      | Some rows \<Rightarrow>
          (case find (\<lambda>u. us_id u = conv_user_id conv) rows of
             None \<Rightarrow> conv
           | Some userSettings \<Rightarrow>
               conv\<lparr>conv_user_name := or_else (us_display_name userSettings) (conv_user_id conv),
                    conv_user_image := or_null (us_profile_image_url userSettings)\<rparr>))"

definition withListingInfo :: "listing list option \<Rightarrow> conversation \<Rightarrow> conversation" where
  "withListingInfo listingData conv =
     (case listingData of
        None \<Rightarrow> conv
      | Some rows \<Rightarrow>
          (case find (\<lambda>l. l_id l = conv_listing_id conv) rows of
             None \<Rightarrow> conv
           | Some found \<Rightarrow> conv\<lparr>conv_listing_title := l_title found\<rparr>))"

definition getConversations ::
    "platform \<Rightarrow> jsstring \<Rightarrow> jsstring option \<Rightarrow> error + message list response
       \<Rightarrow> (jsstring list \<Rightarrow> error + user_settings list response)
       \<Rightarrow> (jsstring list \<Rightarrow> error + listing list response)
       \<Rightarrow> error + conversation list" where
  "getConversations P userId privateKey query userSettingsQuery listingQuery =
     try_catch
       (andThen query (\<lambda>r.
          if resp_error r \<noteq> None then Inr []
          else
            (let filteredMessages =
                   (case resp_data r of
                      None \<Rightarrow> []
                    | Some messagesData \<Rightarrow>
                        filter (\<lambda>msg. msg_sender_id msg = userId \<or> msg_receiver_id msg = userId)
                          messagesData)
             in
             andThen (conversationLoop P userId privateKey filteredMessages []) (\<lambda>conversationMap.
             let convs = map snd conversationMap;
                 partnerIds = map conv_user_id convs;
                 listingIds = filter (\<lambda>i. i \<noteq> js ''general'') (map conv_listing_id convs)
             in
             andThen (if 0 < length partnerIds
                      then andThen (userSettingsQuery partnerIds)
                             (\<lambda>u. Inr (map (withUserInfo (resp_data u)) convs))
                      else Inr convs) (\<lambda>convs1.
             andThen (if 0 < length listingIds
                      then andThen (listingQuery listingIds)
                             (\<lambda>l. Inr (map (withListingInfo (resp_data l)) convs1))
                      else Inr convs1) (\<lambda>conversations.
             Inr conversations))))))
       (\<lambda>error. Inr [])"

section \<open>The compositions the round-trip claims speak of\<close>

text \<open>
  \<open>decryptMessage(await encryptMessage(P, K.publicKey), K.privateKey)\<close> for the pair
  \<open>K\<close> that \<open>generateKeyPair\<close> returns;
  \<open>decryptPrivateKey(await encryptPrivateKey(PK, W1), W2)\<close>; and two successive calls of
  \<open>encryptPrivateKey\<close> on the same arguments, the second drawing from the random source
  as the first left it. A step that throws ends the composition with its error.
\<close>

definition encrypt_then_decrypt :: "platform \<Rightarrow> nat \<Rightarrow> nat \<Rightarrow> jsstring \<Rightarrow> error + jsstring" where
  "encrypt_then_decrypt P keyEntropy entropy plaintext =
     andThen (generateKeyPair P keyEntropy) (\<lambda>K.
     andThen (encryptMessage P entropy plaintext (kp_publicKey K)) (\<lambda>c.
     decryptMessage P c (kp_privateKey K)))"

definition protect_then_open ::
    "platform \<Rightarrow> rng \<Rightarrow> jsstring \<Rightarrow> jsstring \<Rightarrow> jsstring \<Rightarrow> error + jsstring" where
  "protect_then_open P g privateKey password1 password2 =
     andThen (fst (encryptPrivateKey P g privateKey password1))
       (\<lambda>blob. decryptPrivateKey P blob password2)"

definition protect_twice ::
    "platform \<Rightarrow> rng \<Rightarrow> jsstring \<Rightarrow> jsstring \<Rightarrow> (error + jsstring) \<times> (error + jsstring)" where
  "protect_twice P g privateKey password =
     (let (first, g1) = encryptPrivateKey P g privateKey password;
          (second, g2) = encryptPrivateKey P g1 privateKey password
      in (first, second))"

section \<open>What is assumed of the platform\<close>

text \<open>
  The properties of \<open>crypto.subtle\<close> and \<open>JSON\<close> that the round-trip claims rest on.
  They are hypotheses of the theorems that need them, never facts of the theory.

  \<open>rsa_oaep_sound\<close>: a generated pair survives export and import, and a message within
  the payload bound encrypts under the public key and decrypts under the private key.
  \<open>aes_gcm_sound\<close>: a key is derived from any password and 16-byte salt, and under a
  12-byte IV what it encrypts it decrypts. \<open>json_blob_sound\<close>: the blob parses back to
  its three arrays. Nothing is assumed about which ciphertexts AES-GCM rejects, nor
  about which passwords derive the same key.
\<close>

definition rsa_oaep_sound :: "platform \<Rightarrow> bool" where
  "rsa_oaep_sound P =
     (\<forall>entropy pub priv. generateKey P 2048 entropy = Inr (pub, priv) \<longrightarrow>
        (\<exists>spki pkcs8.
            exportKey_spki P pub = Inr spki \<and> exportKey_pkcs8 P priv = Inr pkcs8 \<and>
            importKey_spki P spki = Inr pub \<and> importKey_pkcs8 P pkcs8 = Inr priv) \<and>
        (\<forall>r m. length m \<le> oaep_max_payload 2048 \<longrightarrow>
           (\<exists>c. rsa_oaep_encrypt P pub r m = Inr c \<and> rsa_oaep_decrypt P priv c = Inr m)))"

definition aes_gcm_sound :: "platform \<Rightarrow> bool" where
  "aes_gcm_sound P =
     (\<forall>pw salt. length salt = 16 \<longrightarrow>
        (\<exists>keyMaterial key.
            importKey_raw P pw = Inr keyMaterial \<and>
            deriveKey P salt 100000 keyMaterial = Inr key \<and>
            (\<forall>iv pt. length iv = 12 \<longrightarrow>
               (\<exists>ct. aes_gcm_encrypt P iv key pt = Inr ct \<and>
                     aes_gcm_decrypt P iv key ct = Inr pt))))"

definition json_blob_sound :: "platform \<Rightarrow> bool" where
  "json_blob_sound P = (\<forall>blob. JSON_parse_blob P (JSON_stringify_blob P blob) = Inr blob)"

section \<open>A small platform on which the hypotheses hold\<close>

text \<open>
  A stand-in for the browser with the properties above, small enough to evaluate: a
  key is its material, a ciphertext is the key in a self-delimiting frame followed by
  the plaintext, and decryption compares the framed key. It shows the hypotheses of
  the theorems to be satisfiable and serves to evaluate the functions on inputs.
\<close>

definition frame :: "'a::zero_neq_one list \<Rightarrow> 'a list" where
  "frame xs = concat (map (\<lambda>x. [1, x]) xs) @ [0]"

fun unframe :: "'a::zero_neq_one list \<Rightarrow> ('a list \<times> 'a list) option" where
  "unframe [] = None"
| "unframe [t] = (if t = 0 then Some ([], []) else None)"
| "unframe (t # x # r) =
     (if t = 0 then Some ([], x # r)
      else if t = 1 then (case unframe r of None \<Rightarrow> None | Some (xs, r') \<Rightarrow> Some (x # xs, r'))
      else None)"

definition sealed :: "cryptokey \<Rightarrow> byte list \<Rightarrow> byte list" where
  "sealed key pt = frame (key_material key) @ pt"

definition unseal :: "cryptokey \<Rightarrow> byte list \<Rightarrow> error + byte list" where
  "unseal key ct =
     (case unframe ct of
        None \<Rightarrow> Inl OperationError
      | Some (k, pt) \<Rightarrow> if k = key_material key then Inr pt else Inl OperationError)"

definition units_of_bytes :: "byte list \<Rightarrow> jsstring" where
  "units_of_bytes bs = map (\<lambda>b. unit_of (unat b)) bs"

definition bytes_of_units :: "jsstring \<Rightarrow> byte list" where
  "bytes_of_units us = map (\<lambda>c. byte_of (unat c)) us"

definition toy_stringify :: "byte list \<times> byte list \<times> byte list \<Rightarrow> jsstring" where
  "toy_stringify blob =
     (case blob of (salt, iv, ct) \<Rightarrow>
        frame (units_of_bytes salt) @ frame (units_of_bytes iv) @ frame (units_of_bytes ct))"

definition toy_parse :: "jsstring \<Rightarrow> error + (byte list \<times> byte list \<times> byte list)" where
  "toy_parse s =
     (case unframe s of
        None \<Rightarrow> Inl SyntaxError
      | Some (salt, r1) \<Rightarrow>
          (case unframe r1 of
             None \<Rightarrow> Inl SyntaxError
           | Some (iv, r2) \<Rightarrow>
               (case unframe r2 of
                  None \<Rightarrow> Inl SyntaxError
                | Some (ct, r3) \<Rightarrow>
                    if r3 = [] then Inr (bytes_of_units salt, bytes_of_units iv, bytes_of_units ct)
                    else Inl SyntaxError)))"

text \<open>Two random sources: one that repeats itself, one that counts.\<close>

definition zero_rng :: rng where
  "zero_rng = (\<lambda>i. 0)"

definition counting_rng :: rng where
  "counting_rng = (\<lambda>i. byte_of (i mod 256))"

text \<open>A database from before the encryption feature: no user has a key.\<close>

definition legacy_db :: database where
  "legacy_db =
     \<lparr>db_user_keys = [], db_messages = [], db_serving = True,
      db_stamp = (\<lambda>n. (js ''m1'', js ''2025-01-01''))\<rparr>"

text \<open>A stored message from one user to another.\<close>

definition stored_message :: "jsstring \<Rightarrow> jsstring \<Rightarrow> jsstring \<Rightarrow> message" where
  "stored_message sender receiver body =
     \<lparr>msg_id = js ''m1'', msg_sender_id = sender, msg_receiver_id = receiver,
      msg_content = body, msg_is_read = False, msg_created_at = js ''2025-01-01'',
      msg_listing_id = None\<rparr>"

definition toy_platform :: platform where
  "toy_platform =
     \<lparr>generateKey = (\<lambda>modulusLength entropy.
         Inr (CryptoKey [byte_of (entropy mod 256)], CryptoKey [byte_of (entropy mod 256)])),
      exportKey_spki = (\<lambda>key. Inr (key_material key)),
      exportKey_pkcs8 = (\<lambda>key. Inr (key_material key)),
      importKey_spki = (\<lambda>bs. Inr (CryptoKey bs)),
      importKey_pkcs8 = (\<lambda>bs. Inr (CryptoKey bs)),
      importKey_raw = (\<lambda>bs. Inr (CryptoKey bs)),
      rsa_oaep_encrypt = (\<lambda>key entropy m.
         if length m \<le> oaep_max_payload 2048 then Inr (sealed key m) else Inl OperationError),
      rsa_oaep_decrypt = unseal,
      deriveKey = (\<lambda>salt iterations keyMaterial. Inr (CryptoKey (key_material keyMaterial @ salt))),
      aes_gcm_encrypt = (\<lambda>iv key pt. Inr (sealed key pt)),
      aes_gcm_decrypt = (\<lambda>iv key ct. unseal key ct),
      JSON_stringify_blob = toy_stringify,
      JSON_parse_blob = toy_parse\<rparr>"

text \<open>
  PBKDF2 with HMAC-SHA-256 keys HMAC with the password, and HMAC pads a key shorter
  than its 64-byte block with zero bytes: a password and the same password followed by
  zero bytes derive the same key. The small platform with this one feature of the real
  key derivation added: the derived key is made of the password without its trailing
  zero bytes.
\<close>

definition hmac_key :: "byte list \<Rightarrow> byte list" where
  "hmac_key password = rev (dropWhile (\<lambda>b. b = 0) (rev password))"

definition hmac_platform :: platform where
  "hmac_platform =
     toy_platform
       \<lparr>deriveKey := (\<lambda>salt iterations keyMaterial.
          Inr (CryptoKey (hmac_key (key_material keyMaterial) @ salt)))\<rparr>"

section \<open>Lemmas: bytes, code units and base64\<close>

lemma unat_byte_of [simp]: "n < 256 \<Longrightarrow> unat (byte_of n) = n"
  by (simp add: byte_of_def unat_of_nat)

lemma byte_of_unat [simp]: "byte_of (unat b) = b"
  by (simp add: byte_of_def)

lemma unat_byte_lt [simp]: "unat (b :: byte) < 256"
  using unsigned_less [of b] by simp

lemma unat_unit_of [simp]: "n < 65536 \<Longrightarrow> unat (unit_of n) = n"
  by (simp add: unit_of_def unat_of_nat)

lemma unit_of_unat [simp]: "unit_of (unat c) = c"
  by (simp add: unit_of_def)

lemma unat_unit_lt [simp]: "unat (c :: code_unit) < 65536"
  using unsigned_less [of c] by simp

lemma unit_of_eq_iff [simp]:
  "a < 65536 \<Longrightarrow> b < 65536 \<Longrightarrow> (unit_of a = unit_of b) = (a = b)"
  by (metis unat_unit_of)

lemma byte_of_eq_iff [simp]:
  "a < 256 \<Longrightarrow> b < 256 \<Longrightarrow> (byte_of a = byte_of b) = (a = b)"
  by (metis unat_byte_of)

lemma b64_index_char: "n < 64 \<Longrightarrow> b64_index (b64_char n) = Some n"
  unfolding b64_index_def b64_char_def Let_def by auto

lemma b64_value_char: "n < 64 \<Longrightarrow> b64_value (b64_char n) = n"
  by (simp add: b64_value_def b64_index_char)

lemma b64_char_not_ws: "n < 64 \<Longrightarrow> \<not> ascii_whitespace (b64_char n)"
  unfolding ascii_whitespace_def b64_char_def Let_def by auto

lemma b64_char_not_pad: "n < 64 \<Longrightarrow> b64_char n \<noteq> b64_pad"
  unfolding b64_pad_def b64_char_def by auto

lemma b64_pad_not_ws: "\<not> ascii_whitespace b64_pad"
  by (simp add: ascii_whitespace_def b64_pad_def)

lemma sextet_mid1: "b < 256 \<Longrightarrow> a mod 4 * 16 + b div 16 < (64::nat)"
proof -
  assume "b < 256"
  then have "b div 16 < 16" by (simp add: div_less_iff_less_mult)
  moreover have "a mod 4 < 4" by simp
  ultimately show ?thesis by linarith
qed

lemma sextet_mid2: "c < 256 \<Longrightarrow> b mod 16 * 4 + c div 64 < (64::nat)"
proof -
  assume "c < 256"
  then have "c div 64 < 4" by (simp add: div_less_iff_less_mult)
  moreover have "b mod 16 < 16" by simp
  ultimately show ?thesis by linarith
qed

lemma sextets_lt: "list_all (\<lambda>n. n < 256) ns \<Longrightarrow> list_all (\<lambda>n. n < 64) (sextets ns)"
  by (induction ns rule: sextets.induct)
     (simp_all add: sextet_mid1 sextet_mid2 div_less_iff_less_mult)

lemma join1: "b < 256 \<Longrightarrow> (a div 4 * 64 + a mod 4 * 16) div 16 = (a::nat)"
proof -
  define q r where "q = a div 4" and "r = a mod 4"
  have "a = q * 4 + r" by (simp add: q_def r_def)
  then have "q * 64 + r * 16 = a * 16" by simp
  then show ?thesis by (simp add: q_def r_def)
qed

lemma join2:
  assumes "b < 256"
  shows "(a div 4 * 4096 + (a mod 4 * 16 + b div 16) * 64 + b mod 16 * 4) div 4 = a * 256 + (b::nat)"
proof -
  define q r s t where "q = a div 4" and "r = a mod 4" and "s = b div 16" and "t = b mod 16"
  have "a = q * 4 + r" "b = s * 16 + t" by (simp_all add: q_def r_def s_def t_def)
  then have "q * 4096 + (r * 16 + s) * 64 + t * 4 = (a * 256 + b) * 4" by simp
  then show ?thesis by (simp add: q_def r_def s_def t_def)
qed

lemma join3:
  "a div 4 * 262144 + (a mod 4 * 16 + b div 16) * 4096 + (b mod 16 * 4 + c div 64) * 64 + c mod 64
     = a * 65536 + b * 256 + (c::nat)"
proof -
  define q r s t u v where "q = a div 4" and "r = a mod 4" and "s = b div 16"
    and "t = b mod 16" and "u = c div 64" and "v = c mod 64"
  have "a = q * 4 + r" "b = s * 16 + t" "c = u * 64 + v"
    by (simp_all add: q_def r_def s_def t_def u_def v_def)
  then have "q * 262144 + (r * 16 + s) * 4096 + (t * 4 + u) * 64 + v = a * 65536 + b * 256 + c"
    by simp
  then show ?thesis by (simp add: q_def r_def s_def t_def u_def v_def)
qed

lemma bytes2:
  assumes "b < 256"
  shows "(a * 256 + b) div 256 = (a::nat)" and "(a * 256 + b) mod 256 = b"
  using assms by simp_all

lemma bytes3:
  assumes "b < 256" "c < 256"
  shows "(a * 65536 + b * 256 + c) div 65536 = (a::nat)"
    and "(a * 65536 + b * 256 + c) div 256 mod 256 = b"
    and "(a * 65536 + b * 256 + c) mod 256 = c"
proof -
  have e: "a * 65536 + b * 256 + c = (a * 256 + b) * 256 + c" by simp
  have "b * 256 + c < 65536" using assms by linarith
  then show "(a * 65536 + b * 256 + c) div 65536 = a" by (simp add: add.assoc)
  show "(a * 65536 + b * 256 + c) div 256 mod 256 = b"
    unfolding e using assms bytes2 [of c "a * 256 + b"] bytes2 [of b a] by simp
  show "(a * 65536 + b * 256 + c) mod 256 = c"
    unfolding e using assms bytes2 [of c "a * 256 + b"] by simp
qed

lemma b64_decode_group1: "b64_decode (sextets [a]) = [a]"
  using join1 [of 0 a] by simp

lemma b64_decode_group2:
  assumes "b < 256"
  shows "b64_decode (sextets [a, b]) = [a, b]"
proof -
  have "b64_decode (sextets [a, b]) =
      (let n = (a div 4 * 4096 + (a mod 4 * 16 + b div 16) * 64 + b mod 16 * 4) div 4
       in [n div 256, n mod 256])"
    by (simp only: sextets.simps b64_decode.simps)
  also have "\<dots> = [a, b]"
    by (simp only: join2 [OF assms] Let_def bytes2 [OF assms])
  finally show ?thesis .
qed

lemma b64_decode_group3:
  assumes "b < 256" "c < 256"
  shows "b64_decode (sextets (a # b # c # r)) = [a, b, c] @ b64_decode (sextets r)"
proof -
  have "b64_decode (sextets (a # b # c # r)) =
      (let n = a div 4 * 262144 + (a mod 4 * 16 + b div 16) * 4096
                 + (b mod 16 * 4 + c div 64) * 64 + c mod 64
       in [n div 65536, (n div 256) mod 256, n mod 256] @ b64_decode (sextets r))"
    by (simp only: sextets.simps b64_decode.simps append.simps)
  also have "\<dots> = [a, b, c] @ b64_decode (sextets r)"
    by (simp only: join3 Let_def bytes3 [OF assms])
  finally show ?thesis .
qed

lemma b64_decode_sextets: "list_all (\<lambda>n. n < 256) ns \<Longrightarrow> b64_decode (sextets ns) = ns"
proof (induction ns rule: sextets.induct)
  case 1
  then show ?case by simp
next
  case (2 a)
  show ?case by (rule b64_decode_group1)
next
  case (3 a b)
  then show ?case by (simp add: b64_decode_group2 del: sextets.simps b64_decode.simps)
next
  case (4 a b c r)
  then show ?case by (simp add: b64_decode_group3 del: sextets.simps b64_decode.simps)
qed

lemma length_b64_encode: "length (b64_encode ns) mod 4 = 0"
  unfolding b64_encode_def by (induction ns rule: sextets.induct) simp_all

lemma length_sextets_mod4: "length (sextets ns) mod 4 \<noteq> 1"
proof (induction ns rule: sextets.induct)
  case (4 a b c r)
  have "length (sextets (a # b # c # r)) = length (sextets r) + 4" by simp
  then have "length (sextets (a # b # c # r)) mod 4 = length (sextets r) mod 4"
    by (simp only: mod_add_self2)
  with 4 show ?case by simp
qed simp_all

lemma b64_encode_no_ws:
  assumes "list_all (\<lambda>n. n < 256) ns"
  shows "filter (\<lambda>c. \<not> ascii_whitespace c) (b64_encode ns) = b64_encode ns"
proof -
  have "list_all (\<lambda>n. \<not> ascii_whitespace (b64_char n)) (sextets ns)"
    using sextets_lt [OF assms] by (simp add: list_all_iff b64_char_not_ws)
  moreover have "list_all (\<lambda>c. \<not> ascii_whitespace c) (b64_padding ns)"
    by (induction ns rule: sextets.induct) (simp_all add: b64_pad_not_ws)
  ultimately show ?thesis
    by (simp add: b64_encode_def list_all_iff filter_id_conv)
qed

lemma drop_pad_snoc: "drop_pad (xs @ [b64_pad]) = xs"
  by (simp add: drop_pad_def)

lemma drop_pad_id: "list_all (\<lambda>c. c \<noteq> b64_pad) xs \<Longrightarrow> drop_pad xs = xs"
  by (cases xs rule: rev_cases) (simp_all add: drop_pad_def)

lemma b64_padding_cases:
  "b64_padding ns = [] \<or> b64_padding ns = [b64_pad] \<or> b64_padding ns = [b64_pad, b64_pad]"
  by (induction ns rule: sextets.induct) simp_all

lemma strip_padding_b64_encode:
  assumes "list_all (\<lambda>n. n < 256) ns"
  shows "strip_padding (b64_encode ns) = map b64_char (sextets ns)"
proof -
  let ?body = "map b64_char (sextets ns)"
  have np: "list_all (\<lambda>c. c \<noteq> b64_pad) ?body"
    using sextets_lt [OF assms] by (simp add: list_all_iff b64_char_not_pad)
  have "drop_pad (drop_pad (?body @ b64_padding ns)) = ?body"
    using b64_padding_cases [of ns]
  proof (elim disjE)
    assume "b64_padding ns = []"
    then show ?thesis by (simp add: drop_pad_id [OF np])
  next
    assume "b64_padding ns = [b64_pad]"
    then show ?thesis by (simp add: drop_pad_snoc drop_pad_id [OF np])
  next
    assume p: "b64_padding ns = [b64_pad, b64_pad]"
    have "?body @ [b64_pad, b64_pad] = (?body @ [b64_pad]) @ [b64_pad]" by simp
    then show ?thesis unfolding p by (simp only: drop_pad_snoc)
  qed
  then show ?thesis
    using length_b64_encode [of ns] by (simp add: strip_padding_def b64_encode_def)
qed

lemma atob_b64_encode:
  assumes "list_all (\<lambda>n. n < 256) ns"
  shows "atob (b64_encode ns) = Inr (map unit_of ns)"
proof -
  let ?body = "map b64_char (sextets ns)"
  have d: "strip_padding (filter (\<lambda>c. \<not> ascii_whitespace c) (b64_encode ns)) = ?body"
    by (simp only: b64_encode_no_ws [OF assms] strip_padding_b64_encode [OF assms])
  have lt: "list_all (\<lambda>n. n < 64) (sextets ns)" by (rule sextets_lt [OF assms])
  have idx: "\<not> list_ex (\<lambda>c. b64_index c = None) ?body"
    using lt by (auto simp add: list_ex_iff list_all_iff b64_index_char)
  have val: "map b64_value ?body = sextets ns"
    using lt by (simp add: list_all_iff b64_value_char map_idI)
  have len: "length ?body mod 4 \<noteq> 1" using length_sextets_mod4 [of ns] by simp
  show ?thesis
    unfolding atob_def d Let_def using idx len
    by (simp add: val b64_decode_sextets [OF assms] del: map_map)
qed

section \<open>Lemmas: UTF-8 and UTF-16\<close>

text \<open>
  One code point through the encoder and the decoder's state machine, by the length of
  its encoding; then whole strings.
\<close>

lemma lead_mod:
  "(q::nat) < 32 \<Longrightarrow> (192 + q) mod 32 = q"
  "(q::nat) < 16 \<Longrightarrow> (224 + q) mod 16 = q"
  "(q::nat) < 8 \<Longrightarrow> (240 + q) mod 8 = q"
  "(r::nat) < 64 \<Longrightarrow> (128 + r) mod 64 = r"
proof -
  have "192 + q = 32 * 6 + q" "224 + q = 16 * 14 + q" "240 + q = 8 * 30 + q"
    "128 + r = 64 * 2 + r" by simp_all
  then show "q < 32 \<Longrightarrow> (192 + q) mod 32 = q" "q < 16 \<Longrightarrow> (224 + q) mod 16 = q"
    "q < 8 \<Longrightarrow> (240 + q) mod 8 = q" "r < 64 \<Longrightarrow> (128 + r) mod 64 = r"
    by (simp_all only: mod_mult_self4 mod_less)
qed

lemma dec1: "cp < 128 \<Longrightarrow>
    utf8_decode_from 0 0 0 128 191 (cp # rest) = cp # utf8_decode_from 0 0 0 128 191 rest"
  by simp

lemma dec2:
  assumes "2 \<le> q" "q < 32" "s < 64"
  shows "utf8_decode_from 0 0 0 128 191 ((192 + q) # (128 + s) # rest)
           = (q * 64 + s) # utf8_decode_from 0 0 0 128 191 rest"
  using assms by (simp add: lead_mod)

lemma dec3:
  assumes "q < 16" "r < 64" "s < 64" "q = 0 \<longrightarrow> 32 \<le> r" "q = 13 \<longrightarrow> r < 32"
  shows "utf8_decode_from 0 0 0 128 191 ((224 + q) # (128 + r) # (128 + s) # rest)
           = (q * 4096 + r * 64 + s) # utf8_decode_from 0 0 0 128 191 rest"
  using assms by (auto simp add: lead_mod)

lemma dec4:
  assumes "q < 5" "r < 64" "s < 64" "t < 64" "q = 0 \<longrightarrow> 16 \<le> r" "q = 4 \<longrightarrow> r < 16"
  shows "utf8_decode_from 0 0 0 128 191 ((240 + q) # (128 + r) # (128 + s) # (128 + t) # rest)
           = (q * 262144 + r * 4096 + s * 64 + t) # utf8_decode_from 0 0 0 128 191 rest"
  using assms by (auto simp add: lead_mod)

lemma div64_div64: "(n::nat) div 64 div 64 = n div 4096"
  by (simp add: div_mult2_eq [symmetric])

lemma div4096_div64: "(n::nat) div 4096 div 64 = n div 262144"
  by (simp add: div_mult2_eq [symmetric])

lemma split3: "(n::nat) = n div 4096 * 4096 + n div 64 mod 64 * 64 + n mod 64"
proof -
  define a b where "a = n div 64" and "b = n mod 64"
  define c d where "c = a div 64" and "d = a mod 64"
  have "n = a * 64 + b" "a = c * 64 + d" by (simp_all add: a_def b_def c_def d_def)
  then have "n = c * 4096 + d * 64 + b" by simp
  moreover have "c = n div 4096" by (simp add: c_def a_def div64_div64)
  ultimately show ?thesis by (simp add: a_def b_def d_def)
qed

lemma split4: "(n::nat) = n div 262144 * 262144 + n div 4096 mod 64 * 4096
                  + n div 64 mod 64 * 64 + n mod 64"
proof -
  define a where "a = n div 4096"
  define c d where "c = a div 64" and "d = a mod 64"
  have "a = c * 64 + d" by (simp add: c_def d_def)
  then have "n div 4096 * 4096 = c * 262144 + d * 4096" by (simp add: a_def)
  moreover have "c = n div 262144" by (simp add: c_def a_def div4096_div64)
  ultimately show ?thesis using split3 [of n] by (simp add: a_def d_def)
qed

lemma decode_encode_cp:
  assumes "is_scalar cp"
  shows "utf8_decode_from 0 0 0 128 191 (utf8_encode_cp cp @ rest)
           = cp # utf8_decode_from 0 0 0 128 191 rest"
proof -
  consider "cp < 128" | "128 \<le> cp" "cp < 2048" | "2048 \<le> cp" "cp < 65536"
    | "65536 \<le> cp" by linarith
  then show ?thesis
  proof cases
    case 1
    then show ?thesis by (simp add: utf8_encode_cp_def)
  next
    case 2
    have "2 \<le> cp div 64" using 2 by (simp add: less_eq_div_iff_mult_less_eq)
    moreover have "cp div 64 < 32" using 2 by (simp add: div_less_iff_less_mult)
    ultimately have "utf8_decode_from 0 0 0 128 191 ((192 + cp div 64) # (128 + cp mod 64) # rest)
        = (cp div 64 * 64 + cp mod 64) # utf8_decode_from 0 0 0 128 191 rest"
      by (intro dec2) simp_all
    then show ?thesis using 2 by (simp add: utf8_encode_cp_def)
  next
    case 3
    define q r where "q = cp div 4096" and "r = cp div 64 mod 64"
    have q: "q < 16" using 3 by (simp add: q_def div_less_iff_less_mult)
    have lo: "q = 0 \<longrightarrow> 32 \<le> r"
    proof
      assume "q = 0"
      then have "cp < 4096" by (simp add: q_def div_eq_0_iff)
      then have "cp div 64 < 64" by (simp add: div_less_iff_less_mult)
      moreover have "32 \<le> cp div 64" using 3 by (simp add: less_eq_div_iff_mult_less_eq)
      ultimately show "32 \<le> r" by (simp add: r_def)
    qed
    have hi: "q = 13 \<longrightarrow> r < 32"
    proof
      assume q13: "q = 13"
      have "cp div 64 = cp div 64 div 64 * 64 + r" by (simp add: r_def)
      then have e: "cp div 64 = 832 + r" using q13 by (simp add: div64_div64 q_def)
      have "cp div 4096 < 14" using q13 by (simp add: q_def)
      then have "cp < 57344" by (simp add: div_less_iff_less_mult)
      then have "cp < 55296" using assms by (auto simp add: is_scalar_def is_lead_def is_trail_def)
      then have "cp div 64 < 864" by (simp add: div_less_iff_less_mult)
      with e show "r < 32" by linarith
    qed
    have "utf8_decode_from 0 0 0 128 191 ((224 + q) # (128 + r) # (128 + cp mod 64) # rest)
        = (q * 4096 + r * 64 + cp mod 64) # utf8_decode_from 0 0 0 128 191 rest"
      using q lo hi by (intro dec3) (simp_all add: r_def)
    then show ?thesis using 3 split3 [of cp] by (simp add: utf8_encode_cp_def q_def r_def)
  next
    case 4
    define q r where "q = cp div 262144" and "r = cp div 4096 mod 64"
    have lt: "cp < 1114112" using assms by (simp add: is_scalar_def is_lead_def is_trail_def)
    have q: "q < 5" using lt by (simp add: q_def div_less_iff_less_mult)
    have lo: "q = 0 \<longrightarrow> 16 \<le> r"
    proof
      assume "q = 0"
      then have "cp < 262144" by (simp add: q_def div_eq_0_iff)
      then have "cp div 4096 < 64" by (simp add: div_less_iff_less_mult)
      moreover have "16 \<le> cp div 4096" using 4 by (simp add: less_eq_div_iff_mult_less_eq)
      ultimately show "16 \<le> r" by (simp add: r_def)
    qed
    have hi: "q = 4 \<longrightarrow> r < 16"
    proof
      assume q4: "q = 4"
      have "cp div 4096 = cp div 4096 div 64 * 64 + r" by (simp add: r_def)
      then have e: "cp div 4096 = 256 + r" using q4 by (simp add: div4096_div64 q_def)
      have "cp div 4096 < 272" using lt by (simp add: div_less_iff_less_mult)
      with e show "r < 16" by linarith
    qed
    have "utf8_decode_from 0 0 0 128 191
           ((240 + q) # (128 + r) # (128 + cp div 64 mod 64) # (128 + cp mod 64) # rest)
        = (q * 262144 + r * 4096 + cp div 64 mod 64 * 64 + cp mod 64)
            # utf8_decode_from 0 0 0 128 191 rest"
      using q lo hi by (intro dec4) (simp_all add: r_def)
    then show ?thesis using 4 split4 [of cp] by (simp add: utf8_encode_cp_def q_def r_def)
  qed
qed

lemma utf8_decode_encode:
  "list_all is_scalar cps \<Longrightarrow> utf8_decode (concat (map utf8_encode_cp cps)) = cps"
  unfolding utf8_decode_def
  by (induction cps) (simp, simp add: decode_encode_cp del: utf8_decode_from.simps)

lemma utf16_pair:
  assumes "is_lead c" "is_trail d"
  shows "utf16_units (65536 + (c - 55296) * 1024 + (d - 56320)) = [c, d]"
proof -
  define x y where "x = c - 55296" and "y = d - 56320"
  have c: "c = 55296 + x" and d: "d = 56320 + y" and y: "y < 1024"
    using assms by (auto simp add: x_def y_def is_lead_def is_trail_def)
  have "(x * 1024 + y) div 1024 = x" "(x * 1024 + y) mod 1024 = y" using y by simp_all
  then show ?thesis
    unfolding x_def [symmetric] y_def [symmetric] by (simp add: utf16_units_def c d)
qed

lemma utf16_to_usv:
  "well_formed_units us \<Longrightarrow> list_all (\<lambda>u. u < 65536) us
     \<Longrightarrow> concat (map utf16_units (to_usv us)) = us"
proof (induction us rule: to_usv.induct)
  case 1
  then show ?case by simp
next
  case (2 c)
  then show ?case by (simp add: utf16_units_def)
next
  case (3 c d r)
  show ?case
  proof (cases "is_lead c")
    case True
    with 3 show ?thesis by (simp add: utf16_pair)
  next
    case False
    with 3 show ?thesis by (simp add: utf16_units_def)
  qed
qed

lemma pair_scalar:
  assumes "is_lead c" "is_trail d"
  shows "is_scalar (65536 + (c - 55296) * 1024 + (d - 56320))"
proof -
  define x y where "x = c - 55296" and "y = d - 56320"
  have "x < 1024" "y < 1024" using assms by (auto simp add: x_def y_def is_lead_def is_trail_def)
  then have "x * 1024 + y < 1048576" by linarith
  then show ?thesis
    unfolding x_def [symmetric] y_def [symmetric]
    by (simp add: is_scalar_def is_lead_def is_trail_def)
qed

lemma to_usv_scalar: "list_all (\<lambda>u. u < 65536) us \<Longrightarrow> list_all is_scalar (to_usv us)"
proof (induction us rule: to_usv.induct)
  case 1
  then show ?case by simp
next
  case (2 c)
  then show ?case by (simp add: is_scalar_def is_lead_def is_trail_def)
next
  case (3 c d r)
  have f: "is_scalar 65533" by (simp add: is_scalar_def is_lead_def is_trail_def)
  have "c < 65536" using "3.prems" by simp
  then have c: "\<not> is_lead c \<Longrightarrow> \<not> is_trail c \<Longrightarrow> is_scalar c"
    by (simp add: is_scalar_def)
  show ?case using 3 f c by (simp add: pair_scalar)
qed

lemma utf8_encode_cp_bytes: "is_scalar cp \<Longrightarrow> list_all (\<lambda>b. b < 256) (utf8_encode_cp cp)"
proof -
  assume s: "is_scalar cp"
  have m: "\<And>n::nat. 128 + n mod 64 < 256"
  proof -
    fix n :: nat
    have "n mod 64 < 64" by simp
    then show "128 + n mod 64 < 256" by linarith
  qed
  have a: "cp < 2048 \<Longrightarrow> 192 + cp div 64 < 256"
  proof -
    assume "cp < 2048"
    then have "cp div 64 < 32" by (simp add: div_less_iff_less_mult)
    then show ?thesis by linarith
  qed
  have b: "cp < 65536 \<Longrightarrow> 224 + cp div 4096 < 256"
  proof -
    assume "cp < 65536"
    then have "cp div 4096 < 16" by (simp add: div_less_iff_less_mult)
    then show ?thesis by linarith
  qed
  have c: "240 + cp div 262144 < 256"
  proof -
    have "cp < 1114112" using s by (simp add: is_scalar_def)
    then have "cp div 262144 < 5" by (simp add: div_less_iff_less_mult)
    then show ?thesis by linarith
  qed
  show ?thesis using m a b c by (simp add: utf8_encode_cp_def)
qed

lemma to_usv_bom:
  "strip_bom (to_usv us) = to_usv us \<or> (\<exists>r. us = 65279 # r)"
proof (induction us rule: to_usv.induct)
  case 1
  then show ?case by (simp add: strip_bom_def)
next
  case (2 c)
  then show ?case by (simp add: strip_bom_def)
next
  case (3 c d r)
  then show ?case by (simp add: strip_bom_def)
qed

lemma text_roundtrip:
  assumes wf: "isWellFormed s" and nb: "\<not> starts_with_bom s"
  shows "TextDecoder_decode (TextEncoder_encode s) = s"
proof -
  let ?us = "map unat s"
  let ?bs = "concat (map utf8_encode_cp (to_usv ?us))"
  have r: "list_all (\<lambda>u. u < 65536) ?us" by (simp add: list_all_iff)
  have sc: "list_all is_scalar (to_usv ?us)" by (rule to_usv_scalar [OF r])
  have "list_all (\<lambda>b. b < 256) ?bs"
    using sc utf8_encode_cp_bytes by (auto simp add: list_all_iff)
  then have "map unat (map byte_of ?bs) = ?bs"
    by (auto simp add: list_all_iff intro!: map_idI)
  then have "utf8_decode (map unat (TextEncoder_encode s)) = to_usv ?us"
    by (simp only: TextEncoder_encode_def utf8_decode_encode [OF sc])
  moreover have "strip_bom (to_usv ?us) = to_usv ?us"
    using to_usv_bom [of ?us] nb by (cases s) (auto simp add: starts_with_bom_def)
  moreover have "concat (map utf16_units (to_usv ?us)) = ?us"
    using wf r by (simp add: utf16_to_usv isWellFormed_def)
  ultimately show ?thesis by (simp add: TextDecoder_decode_def map_idI)
qed

lemma bom_lost: "TextDecoder_decode (TextEncoder_encode [unit_of 65279, unit_of 104, unit_of 105]) = [unit_of 104, unit_of 105]"
  by (simp add: TextDecoder_decode_def TextEncoder_encode_def utf8_encode_cp_def strip_bom_def
      utf8_decode_def utf16_units_def is_lead_def is_trail_def)

lemma lone_surrogate: "TextEncoder_encode [unit_of 55296] = TextEncoder_encode [unit_of 56320]"
  by (simp add: TextEncoder_encode_def utf8_encode_cp_def is_lead_def is_trail_def)

section \<open>Lemmas: the helpers of \<open>encryption.ts\<close> and the small platform\<close>

lemma unat_unit_byte [simp]: "unat (unit_of (unat (b :: byte))) = unat b"
proof -
  have "unat b < 256" by simp
  then have "unat b < 65536" by linarith
  then show ?thesis by simp
qed

lemma byte_unit_byte [simp]: "byte_of (unat (unit_of (unat (b :: byte)))) = b"
  by simp

lemma unat_byte_le [simp]: "\<not> 255 < unat (b :: byte)"
proof -
  have "unat b < 256" by simp
  then show ?thesis by linarith
qed

lemma arrayBufferToBase64_eq: "arrayBufferToBase64 bs = Inr (b64_encode (map unat bs))"
proof -
  have "\<not> list_ex (\<lambda>c. 255 < unat c) (map (\<lambda>b. unit_of (unat b)) bs)"
    by (simp add: list_ex_iff)
  moreover have "map unat (map (\<lambda>b. unit_of (unat b)) bs) = map unat bs"
    by simp
  ultimately show ?thesis by (simp add: arrayBufferToBase64_def btoa_def del: map_map)
qed

lemma base64_roundtrip: "base64ToArrayBuffer (b64_encode (map unat bs)) = Inr bs"
proof -
  have "list_all (\<lambda>n. n < 256) (map unat bs)" by (simp add: list_all_iff)
  then have "atob (b64_encode (map unat bs)) = Inr (map unit_of (map unat bs))"
    by (rule atob_b64_encode)
  then show ?thesis by (simp add: base64ToArrayBuffer_def andThen_def comp_def map_idI)
qed

lemma unframe_frame: "unframe (frame xs @ r) = Some (xs, r)"
proof (induction xs)
  case Nil
  then show ?case by (cases r) (simp_all add: frame_def)
next
  case (Cons x xs)
  then show ?case by (simp add: frame_def)
qed

lemma unseal_sealed: "unseal key (sealed key pt) = Inr pt"
  by (simp add: unseal_def sealed_def unframe_frame)

lemma unseal_other: "key_material k1 \<noteq> key_material k2 \<Longrightarrow> unseal k2 (sealed k1 pt) = Inl OperationError"
  by (simp add: unseal_def sealed_def unframe_frame)

lemma bytes_units: "bytes_of_units (units_of_bytes bs) = bs"
  by (simp add: bytes_of_units_def units_of_bytes_def comp_def map_idI)

lemma toy_parse_stringify: "toy_parse (toy_stringify blob) = Inr blob"
proof -
  obtain salt iv ct where b: "blob = (salt, iv, ct)" by (cases blob) auto
  have "unframe (frame (units_of_bytes ct)) = Some (units_of_bytes ct, [])"
    using unframe_frame [of "units_of_bytes ct" "[]"] by simp
  then show ?thesis
    by (simp add: b toy_parse_def toy_stringify_def unframe_frame bytes_units)
qed

lemma toy_rsa_oaep_sound: "rsa_oaep_sound toy_platform"
  by (simp add: rsa_oaep_sound_def toy_platform_def unseal_sealed)

lemma toy_aes_gcm_sound: "aes_gcm_sound toy_platform"
  by (simp add: aes_gcm_sound_def toy_platform_def unseal_sealed)

lemma toy_json_blob_sound: "json_blob_sound toy_platform"
  by (simp add: json_blob_sound_def toy_platform_def toy_parse_stringify)

lemma unseal_one_key:
  "unseal k1 ct = Inr pt \<Longrightarrow> key_material k2 \<noteq> key_material k1
     \<Longrightarrow> unseal k2 ct = Inl OperationError"
  by (auto simp add: unseal_def split: option.splits if_splits)

lemma hmac_aes_gcm_sound: "aes_gcm_sound hmac_platform"
  by (simp add: aes_gcm_sound_def hmac_platform_def toy_platform_def unseal_sealed)

lemma hmac_json_blob_sound: "json_blob_sound hmac_platform"
  by (simp add: json_blob_sound_def hmac_platform_def toy_platform_def toy_parse_stringify)

section \<open>Message encryption and decryption\<close>

lemma generateKeyPair_sound:
  assumes "rsa_oaep_sound P" and "generateKeyPair P keyEntropy = Inr K"
  shows "\<exists>pub priv spki pkcs8.
           kp_publicKey K = b64_encode (map unat spki) \<and>
           kp_privateKey K = b64_encode (map unat pkcs8) \<and>
           importKey_spki P spki = Inr pub \<and> importKey_pkcs8 P pkcs8 = Inr priv \<and>
           (\<forall>r m. length m \<le> oaep_max_payload 2048 \<longrightarrow>
              (\<exists>c. rsa_oaep_encrypt P pub r m = Inr c \<and> rsa_oaep_decrypt P priv c = Inr m))"
proof -
  obtain pub priv where g: "generateKey P 2048 keyEntropy = Inr (pub, priv)"
    using assms(2) by (cases "generateKey P 2048 keyEntropy")
      (auto simp add: generateKeyPair_def andThen_def)
  from assms(1) g obtain spki pkcs8 where
    e: "exportKey_spki P pub = Inr spki" "exportKey_pkcs8 P priv = Inr pkcs8"
      "importKey_spki P spki = Inr pub" "importKey_pkcs8 P pkcs8 = Inr priv"
    and r: "\<forall>r m. length m \<le> oaep_max_payload 2048 \<longrightarrow>
              (\<exists>c. rsa_oaep_encrypt P pub r m = Inr c \<and> rsa_oaep_decrypt P priv c = Inr m)"
    unfolding rsa_oaep_sound_def by blast
  have "K = \<lparr>kp_publicKey = b64_encode (map unat spki),
              kp_privateKey = b64_encode (map unat pkcs8)\<rparr>"
    using assms(2) g e by (simp add: generateKeyPair_def andThen_def arrayBufferToBase64_eq)
  then show ?thesis using e r by auto
qed

lemma encrypt_decrypt_bytes:
  assumes "rsa_oaep_sound P" and "generateKeyPair P keyEntropy = Inr K"
    and "length (TextEncoder_encode plaintext) \<le> oaep_max_payload 2048"
  shows "\<exists>c. encryptMessage P entropy plaintext (kp_publicKey K) = Inr c \<and>
             decryptMessage P c (kp_privateKey K)
               = Inr (TextDecoder_decode (TextEncoder_encode plaintext))"
proof -
  from generateKeyPair_sound [OF assms(1,2)] obtain pub priv spki pkcs8 where
    k: "kp_publicKey K = b64_encode (map unat spki)"
       "kp_privateKey K = b64_encode (map unat pkcs8)"
    and i: "importKey_spki P spki = Inr pub" "importKey_pkcs8 P pkcs8 = Inr priv"
    and r: "\<forall>r m. length m \<le> oaep_max_payload 2048 \<longrightarrow>
              (\<exists>c. rsa_oaep_encrypt P pub r m = Inr c \<and> rsa_oaep_decrypt P priv c = Inr m)"
    by blast
  from r assms(3) obtain c where
    c: "rsa_oaep_encrypt P pub entropy (TextEncoder_encode plaintext) = Inr c"
       "rsa_oaep_decrypt P priv c = Inr (TextEncoder_encode plaintext)"
    by blast
  have "encryptMessage P entropy plaintext (kp_publicKey K) = Inr (b64_encode (map unat c))"
    by (simp add: encryptMessage_def try_catch_def andThen_def k base64_roundtrip i c
        arrayBufferToBase64_eq)
  moreover have "decryptMessage P (b64_encode (map unat c)) (kp_privateKey K)
      = Inr (TextDecoder_decode (TextEncoder_encode plaintext))"
    by (simp add: decryptMessage_def decryptMessage_try_def try_catch_def andThen_def k
        base64_roundtrip i c)
  ultimately show ?thesis by blast
qed

lemma toy_generateKeyPair:
  "generateKeyPair toy_platform 7 = Inr \<lparr>kp_publicKey = js ''Bw=='', kp_privateKey = js ''Bw==''\<rparr>"
  by (simp add: generateKeyPair_def toy_platform_def andThen_def arrayBufferToBase64_eq
      b64_encode_def b64_char_def b64_pad_def js_def)

text \<open>
  Claim C1, as amended. On a platform whose RSA-OAEP is sound, for every key pair
  \<open>K\<close> that \<open>generateKeyPair\<close> returns and every plaintext that is a well-formed
  string (no unpaired surrogate), does not begin with U+FEFF and whose UTF-8 encoding
  is within the 190 bytes of the key's payload, \<open>encryptMessage\<close> under \<open>K.publicKey\<close>
  returns a ciphertext and \<open>decryptMessage\<close> of it under \<open>K.privateKey\<close> returns
  exactly the plaintext.
\<close>

theorem message_round_trip:
  assumes "rsa_oaep_sound P"
    and "generateKeyPair P keyEntropy = Inr K"
    and "isWellFormed plaintext"
    and "\<not> starts_with_bom plaintext"
    and "length (TextEncoder_encode plaintext) \<le> oaep_max_payload 2048"
  shows "\<exists>c. encryptMessage P entropy plaintext (kp_publicKey K) = Inr c \<and>
             decryptMessage P c (kp_privateKey K) = Inr plaintext"
  using encrypt_decrypt_bytes [OF assms(1,2,5)] text_roundtrip [OF assms(3,4)] by simp

lemma hello_ok:
  "isWellFormed (js ''Hello!'')" "\<not> starts_with_bom (js ''Hello!'')"
  "length (TextEncoder_encode (js ''Hello!'')) \<le> oaep_max_payload 2048"
  by (simp_all add: isWellFormed_def starts_with_bom_def js_def is_lead_def is_trail_def
      TextEncoder_encode_def utf8_encode_cp_def oaep_max_payload_def)

text \<open>The theorem at the plaintext \<open>"Hello!"\<close> on the small platform.\<close>

theorem message_round_trip_witness:
  "rsa_oaep_sound toy_platform \<and>
   generateKeyPair toy_platform 7 = Inr \<lparr>kp_publicKey = js ''Bw=='', kp_privateKey = js ''Bw==''\<rparr> \<and>
   isWellFormed (js ''Hello!'') \<and> \<not> starts_with_bom (js ''Hello!'') \<and>
   length (TextEncoder_encode (js ''Hello!'')) \<le> oaep_max_payload 2048 \<and>
   (\<exists>c. encryptMessage toy_platform 0 (js ''Hello!'') (js ''Bw=='') = Inr c \<and>
        decryptMessage toy_platform c (js ''Bw=='') = Inr (js ''Hello!''))"
  using message_round_trip [OF toy_rsa_oaep_sound toy_generateKeyPair hello_ok, of 0]
    toy_rsa_oaep_sound toy_generateKeyPair hello_ok by simp

lemma encrypt_then_decrypt_eq:
  assumes "rsa_oaep_sound P" and "generateKeyPair P keyEntropy = Inr K"
    and "length (TextEncoder_encode plaintext) \<le> oaep_max_payload 2048"
  shows "encrypt_then_decrypt P keyEntropy entropy plaintext
           = Inr (TextDecoder_decode (TextEncoder_encode plaintext))"
  using encrypt_decrypt_bytes [OF assms, of entropy] assms(2)
  by (auto simp add: encrypt_then_decrypt_def andThen_def)

text \<open>
  Claim C1 as it is stated, for every plaintext within the payload, fails: U+FEFF
  followed by \<open>"hi"\<close> (five bytes in UTF-8) comes back as \<open>"hi"\<close>, because
  \<open>new TextDecoder()\<close> drops a leading byte order mark, and the lone surrogate U+D800
  (three bytes) comes back as U+FFFD, because \<open>TextEncoder\<close> replaces it.
\<close>

theorem message_round_trip_counterexample:
  "length (TextEncoder_encode [unit_of 65279, unit_of 104, unit_of 105]) \<le> oaep_max_payload 2048 \<and>
   encrypt_then_decrypt toy_platform 7 0 [unit_of 65279, unit_of 104, unit_of 105]
     = Inr [unit_of 104, unit_of 105] \<and>
   [unit_of 104, unit_of 105] \<noteq> [unit_of 65279, unit_of 104, unit_of 105] \<and>
   length (TextEncoder_encode [unit_of 55296]) \<le> oaep_max_payload 2048 \<and>
   encrypt_then_decrypt toy_platform 7 0 [unit_of 55296] = Inr [unit_of 65533] \<and>
   [unit_of 65533] \<noteq> [unit_of 55296]"
proof -
  have a: "length (TextEncoder_encode [unit_of 55296]) \<le> oaep_max_payload 2048"
    and b: "length (TextEncoder_encode [unit_of 65279, unit_of 104, unit_of 105])
              \<le> oaep_max_payload 2048"
    by (simp_all add: TextEncoder_encode_def utf8_encode_cp_def oaep_max_payload_def
        is_lead_def is_trail_def)
  have c: "TextDecoder_decode (TextEncoder_encode [unit_of 55296]) = [unit_of 65533]"
    by (simp add: TextDecoder_decode_def TextEncoder_encode_def utf8_encode_cp_def strip_bom_def
      utf8_decode_def utf16_units_def is_lead_def is_trail_def)
  show ?thesis
    using a b c bom_lost
      encrypt_then_decrypt_eq [OF toy_rsa_oaep_sound toy_generateKeyPair a, of 0]
      encrypt_then_decrypt_eq [OF toy_rsa_oaep_sound toy_generateKeyPair b, of 0]
    by simp
qed

lemma atob_empty: "atob [] = Inr []"
  by (simp add: atob_def strip_padding_def drop_pad_def)

lemma atob_hello: "atob (js ''hello'') = Inl InvalidCharacterError"
  by (simp add: atob_def strip_padding_def drop_pad_def js_def ascii_whitespace_def)

lemma atob_Bw: "atob (js ''Bw=='') = Inr [unit_of 7]"
  by (simp add: atob_def strip_padding_def drop_pad_def js_def ascii_whitespace_def
      b64_pad_def b64_index_def b64_value_def)

text \<open>
  Claim C2. \<open>decryptMessage\<close> never throws, whatever the two strings and the
  platform: either every step of its \<open>try\<close> block succeeds and it returns the decoded
  plaintext, or a step throws (the key or the ciphertext is not base64, the key does
  not import, the decryption fails) and it returns \<open>'[Unable to decrypt message]'\<close>.
\<close>

theorem decryptMessage_never_throws:
  "(\<exists>privateKeyBuffer privateKey encryptedData decryptedData.
       base64ToArrayBuffer privateKeyBase64 = Inr privateKeyBuffer \<and>
       importKey_pkcs8 P privateKeyBuffer = Inr privateKey \<and>
       base64ToArrayBuffer encryptedBase64 = Inr encryptedData \<and>
       rsa_oaep_decrypt P privateKey encryptedData = Inr decryptedData \<and>
       decryptMessage P encryptedBase64 privateKeyBase64
         = Inr (TextDecoder_decode decryptedData))
   \<or> ((\<exists>thrown. decryptMessage_try P encryptedBase64 privateKeyBase64 = Inl thrown) \<and>
       decryptMessage P encryptedBase64 privateKeyBase64 = Inr unable_to_decrypt)"
  unfolding decryptMessage_def decryptMessage_try_def try_catch_def andThen_def
  by (auto split: sum.splits)

text \<open>At a legacy plaintext body, \<open>"hello"\<close>, which is not base64.\<close>

theorem decryptMessage_never_throws_witness:
  "decryptMessage toy_platform (js ''hello'') (js ''Bw=='') = Inr unable_to_decrypt"
  using decryptMessage_never_throws [of "js ''Bw==''" toy_platform "js ''hello''"]
  by (auto simp add: base64ToArrayBuffer_def andThen_def atob_hello)

section \<open>Key validation and the session key cache\<close>

lemma js_Cons: "js (c # cs) \<noteq> []"
  by (simp add: js_def)

lemma isValidKey_hello: "\<not> isValidKey (JSString (js ''hello''))"
  by (simp add: atob_hello)

lemma isValidKey_Bw: "isValidKey (JSString (js ''Bw==''))"
  by (simp add: atob_Bw js_Cons)

text \<open>
  Claim C8, as amended. \<open>isValidKey\<close> is a structural check only: it returns true
  exactly for the non-empty strings that \<open>atob\<close> decodes, whether or not the bytes are
  a key of the cipher, and false for \<open>null\<close>, \<open>undefined\<close>, every value that is not a
  string, the empty string and the strings \<open>atob\<close> rejects.
\<close>

theorem isValidKey_structural:
  "isValidKey v = (\<exists>s binary. v = JSString s \<and> s \<noteq> [] \<and> atob s = Inr binary)"
  by (cases v) (auto split: sum.splits)

text \<open>
  The string \<open>"hello"\<close> is not base64 and is refused; \<open>"Bw=="\<close> decodes to the one byte 7,
  which is no RSA key, and is accepted.
\<close>

theorem isValidKey_structural_witness:
  "\<not> isValidKey (JSString (js ''hello'')) \<and> isValidKey (JSString (js ''Bw==''))
     \<and> \<not> isValidKey JSNull \<and> \<not> isValidKey JSUndefined"
  using isValidKey_structural [of "JSString (js ''hello'')"]
    isValidKey_structural [of "JSString (js ''Bw=='')"]
    isValidKey_structural [of JSNull] isValidKey_structural [of JSUndefined]
  by (simp add: atob_hello atob_Bw js_Cons)

text \<open>
  Claim C8 as it is stated, true for every string that decodes, fails at the empty
  string: \<open>atob("")\<close> decodes (to the empty string), and \<open>isValidKey("")\<close> is false,
  by the guard \<open>!key\<close>.
\<close>

theorem isValidKey_structural_counterexample:
  "atob [] = Inr [] \<and> \<not> isValidKey (JSString [])"
  by (simp add: atob_empty)

text \<open>
  Claim C5. \<open>setKeys\<close> with an argument that fails \<open>isValidKey\<close> leaves the state as it
  was; with two arguments that pass, \<open>hasKeys\<close> holds afterwards and the two cells hold
  exactly the arguments; after \<open>clearKeys\<close>, \<open>hasKeys\<close> is false and both cells are
  \<open>null\<close>. Both cells change in the one step or neither does.
\<close>

theorem session_cache_atomic:
  "(\<not> isValidKey (JSString priv) \<or> \<not> isValidKey (JSString pub)
      \<longrightarrow> setKeys priv pub st = st) \<and>
   (isValidKey (JSString priv) \<and> isValidKey (JSString pub)
      \<longrightarrow> hasKeys (setKeys priv pub st) \<and>
          st_privateKey (setKeys priv pub st) = Some priv \<and>
          st_publicKey (setKeys priv pub st) = Some pub) \<and>
   \<not> hasKeys (clearKeys st) \<and>
   st_privateKey (clearKeys st) = None \<and> st_publicKey (clearKeys st) = None"
  by (simp add: setKeys_def clearKeys_def hasKeys_def nullable_def)

text \<open>
  From the empty cache: a load with a private key that is not base64 changes nothing,
  a load of two decodable strings sets both, and clearing empties it again.
\<close>

theorem session_cache_atomic_witness:
  "\<not> isValidKey (JSString (js ''hello'')) \<and>
   setKeys (js ''hello'') (js ''Bw=='') initial_context = initial_context \<and>
   isValidKey (JSString (js ''Bw=='')) \<and>
   hasKeys (setKeys (js ''Bw=='') (js ''Bw=='') initial_context) \<and>
   st_privateKey (setKeys (js ''Bw=='') (js ''Bw=='') initial_context) = Some (js ''Bw=='') \<and>
   st_publicKey (setKeys (js ''Bw=='') (js ''Bw=='') initial_context) = Some (js ''Bw=='') \<and>
   \<not> hasKeys (clearKeys (setKeys (js ''Bw=='') (js ''Bw=='') initial_context))"
proof -
  note bad = isValidKey_hello and good = isValidKey_Bw
  show ?thesis
    using bad good
      session_cache_atomic [of "js ''hello''" "js ''Bw==''" initial_context]
      session_cache_atomic [of "js ''Bw==''" "js ''Bw==''" initial_context]
      session_cache_atomic [of "js ''Bw==''" "js ''Bw==''"
        "setKeys (js ''Bw=='') (js ''Bw=='') initial_context"]
    by blast
qed

section \<open>Protection of the private key\<close>

lemma random_draws:
  assumes "salt = map g [0..<16]" and "iv = map g [16..<28]"
  shows "getRandomValues 16 g = (salt, (\<lambda>i. g (16 + i)))"
    and "getRandomValues 12 (\<lambda>i. g (16 + i)) = (iv, (\<lambda>i. g (28 + i)))"
proof -
  show "getRandomValues 16 g = (salt, (\<lambda>i. g (16 + i)))"
    unfolding assms by (simp add: getRandomValues_def)
  have "map (\<lambda>i. g (16 + i)) [0..<12] = map g (map (\<lambda>i. i + 16) [0..<12])"
    by (simp add: add.commute)
  also have "\<dots> = map g [16..<28]"
    by (simp only: map_add_upt) simp
  finally show "getRandomValues 12 (\<lambda>i. g (16 + i)) = (iv, (\<lambda>i. g (28 + i)))"
    unfolding assms by (simp add: getRandomValues_def add.assoc [symmetric])
qed

lemma encryptPrivateKey_sound:
  assumes "aes_gcm_sound P" and s: "salt = map g [0..<16]" and v: "iv = map g [16..<28]"
  shows "\<exists>keyMaterial key ct.
           importKey_raw P (TextEncoder_encode password) = Inr keyMaterial \<and>
           deriveKey P salt 100000 keyMaterial = Inr key \<and>
           aes_gcm_decrypt P iv key ct = Inr (TextEncoder_encode privateKey) \<and>
           encryptPrivateKey P g privateKey password
             = (Inr (JSON_stringify_blob P (salt, iv, ct)), (\<lambda>i. g (28 + i)))"
proof -
  have "length salt = 16" by (simp add: s)
  with assms(1) obtain keyMaterial key where
    k: "importKey_raw P (TextEncoder_encode password) = Inr keyMaterial"
       "deriveKey P salt 100000 keyMaterial = Inr key"
    and e: "\<forall>iv pt. length iv = 12 \<longrightarrow>
              (\<exists>ct. aes_gcm_encrypt P iv key pt = Inr ct \<and> aes_gcm_decrypt P iv key ct = Inr pt)"
    unfolding aes_gcm_sound_def by blast
  have "length iv = 12" by (simp add: v)
  with e obtain ct where
    c: "aes_gcm_encrypt P iv key (TextEncoder_encode privateKey) = Inr ct"
       "aes_gcm_decrypt P iv key ct = Inr (TextEncoder_encode privateKey)"
    by blast
  have "encryptPrivateKey P g privateKey password
      = (Inr (JSON_stringify_blob P (salt, iv, ct)), (\<lambda>i. g (28 + i)))"
    by (simp add: encryptPrivateKey_def random_draws [OF s v] andThen_def try_catch_def k c)
  with k c show ?thesis by blast
qed

lemma decryptPrivateKey_blob:
  assumes "json_blob_sound P"
    and "importKey_raw P (TextEncoder_encode password) = Inr keyMaterial"
    and "deriveKey P salt 100000 keyMaterial = Inr key"
  shows "decryptPrivateKey P (JSON_stringify_blob P (salt, iv, ct)) password
           = (case aes_gcm_decrypt P iv key ct of
                Inl e \<Rightarrow> Inl (Error ''Invalid password or corrupted key'')
              | Inr pt \<Rightarrow> Inr (TextDecoder_decode pt))"
proof -
  have "JSON_parse_blob P (JSON_stringify_blob P (salt, iv, ct)) = Inr (salt, iv, ct)"
    using assms(1) by (simp add: json_blob_sound_def)
  then show ?thesis
    by (simp add: decryptPrivateKey_def andThen_def try_catch_def assms(2,3) split: sum.splits)
qed

lemma protect_open_bytes:
  assumes "aes_gcm_sound P" and "json_blob_sound P"
  shows "\<exists>blob. fst (encryptPrivateKey P g privateKey password) = Inr blob \<and>
           decryptPrivateKey P blob password
             = Inr (TextDecoder_decode (TextEncoder_encode privateKey))"
proof -
  define salt iv where "salt = map g [0..<16]" and "iv = map g [16..<28]"
  from encryptPrivateKey_sound [OF assms(1) salt_def iv_def, of password privateKey]
  obtain keyMaterial key ct where
    k: "importKey_raw P (TextEncoder_encode password) = Inr keyMaterial"
       "deriveKey P salt 100000 keyMaterial = Inr key"
    and d: "aes_gcm_decrypt P iv key ct = Inr (TextEncoder_encode privateKey)"
    and b: "encryptPrivateKey P g privateKey password
             = (Inr (JSON_stringify_blob P (salt, iv, ct)), (\<lambda>i. g (28 + i)))"
    by blast
  show ?thesis
    using b decryptPrivateKey_blob [OF assms(2) k, of iv ct] d by simp
qed

lemma set_drop_pad: "set xs \<subseteq> insert b64_pad (set (drop_pad xs))"
proof (cases xs rule: rev_cases)
  case Nil
  then show ?thesis by (simp add: drop_pad_def)
next
  case (snoc ys y)
  then show ?thesis by (auto simp add: drop_pad_def)
qed

lemma set_strip_padding: "set xs \<subseteq> insert b64_pad (set (strip_padding xs))"
proof -
  have "set (drop_pad xs) \<subseteq> insert b64_pad (set (drop_pad (drop_pad xs)))"
    by (rule set_drop_pad)
  with set_drop_pad [of xs] have "set xs \<subseteq> insert b64_pad (set (drop_pad (drop_pad xs)))"
    by blast
  then show ?thesis by (auto simp add: strip_padding_def)
qed

lemma atob_ascii:
  assumes "atob s = Inr binary" and "c \<in> set s"
  shows "unat c < 128"
proof -
  let ?d = "strip_padding (filter (\<lambda>c. \<not> ascii_whitespace c) s)"
  have ok: "\<not> list_ex (\<lambda>c. b64_index c = None) ?d"
    using assms(1) by (simp add: atob_def Let_def split: if_splits)
  consider "ascii_whitespace c" | "c = b64_pad" | "c \<in> set ?d"
    using assms(2) set_strip_padding [of "filter (\<lambda>c. \<not> ascii_whitespace c) s"] by auto
  then show ?thesis
  proof cases
    case 1
    then show ?thesis by (auto simp add: ascii_whitespace_def Let_def)
  next
    case 2
    then show ?thesis by (simp add: b64_pad_def)
  next
    case 3
    with ok have "b64_index c \<noteq> None" by (auto simp add: list_ex_iff)
    then show ?thesis by (auto simp add: b64_index_def Let_def split: if_splits)
  qed
qed

lemma ascii_well_formed: "list_all (\<lambda>u. u < 128) us \<Longrightarrow> well_formed_units us"
  by (induction us rule: well_formed_units.induct) (simp_all add: is_lead_def is_trail_def)

lemma valid_key_text:
  assumes "isValidKey (JSString s)"
  shows "isWellFormed s" and "\<not> starts_with_bom s"
proof -
  from assms obtain binary where a: "atob s = Inr binary"
    by (cases "atob s") (auto split: if_splits)
  have ascii: "list_all (\<lambda>u. u < 128) (map unat s)"
    using atob_ascii [OF a] by (simp add: list_all_iff)
  then show "isWellFormed s" by (simp add: isWellFormed_def ascii_well_formed)
  show "\<not> starts_with_bom s"
    using ascii by (cases s) (auto simp add: starts_with_bom_def)
qed

text \<open>
  Claim C3. On a platform whose key derivation and AES-GCM are sound and whose JSON
  gives the blob back, for every password and every private-key string, that is every
  string that is a key by the code's own check \<open>isValidKey\<close> (every base64 string, so
  every key \<open>generateKeyPair\<close> returns), \<open>encryptPrivateKey\<close> returns a blob and
  \<open>decryptPrivateKey\<close> of it under the same password returns exactly the private key.
\<close>

theorem private_key_round_trip:
  assumes "aes_gcm_sound P" and "json_blob_sound P"
    and "isValidKey (JSString privateKey)"
  shows "\<exists>blob. fst (encryptPrivateKey P g privateKey password) = Inr blob \<and>
           decryptPrivateKey P blob password = Inr privateKey"
  using protect_open_bytes [OF assms(1,2), of g privateKey password]
    text_roundtrip [OF valid_key_text [OF assms(3)]] by simp

text \<open>
  The signup scenario: the key \<open>"Bw=="\<close> that \<open>generateKeyPair\<close> returns on the small
  platform, under the password \<open>"correct-horse"\<close>.
\<close>

theorem private_key_round_trip_witness:
  "aes_gcm_sound toy_platform \<and> json_blob_sound toy_platform \<and>
   isValidKey (JSString (js ''Bw=='')) \<and>
   (\<exists>blob. fst (encryptPrivateKey toy_platform zero_rng (js ''Bw=='') (js ''correct-horse''))
             = Inr blob \<and>
           decryptPrivateKey toy_platform blob (js ''correct-horse'') = Inr (js ''Bw==''))"
  using private_key_round_trip [OF toy_aes_gcm_sound toy_json_blob_sound isValidKey_Bw,
        of zero_rng "js ''correct-horse''"]
    toy_aes_gcm_sound toy_json_blob_sound isValidKey_Bw by blast

lemma protect_then_open_eq:
  assumes "aes_gcm_sound P" and "json_blob_sound P"
  shows "protect_then_open P g privateKey password password
           = Inr (TextDecoder_decode (TextEncoder_encode privateKey))"
  using protect_open_bytes [OF assms, of g privateKey password]
  by (auto simp add: protect_then_open_def andThen_def)

lemma surrogate_lost: "TextDecoder_decode (TextEncoder_encode [unit_of 55296]) = [unit_of 65533]"
  by (simp add: TextDecoder_decode_def TextEncoder_encode_def utf8_encode_cp_def strip_bom_def
      utf8_decode_def utf16_units_def is_lead_def is_trail_def)

text \<open>
  The hypothesis on the private key is needed: a string that is not a key need not
  come back. The lone surrogate U+D800 comes back as U+FFFD, and U+FEFF followed by
  \<open>"hi"\<close> comes back as \<open>"hi"\<close>.
\<close>

lemma other_strings_not_restored:
  "protect_then_open toy_platform zero_rng [unit_of 55296] (js ''pw'') (js ''pw'')
     = Inr [unit_of 65533] \<and>
   protect_then_open toy_platform zero_rng [unit_of 65279, unit_of 104, unit_of 105]
       (js ''pw'') (js ''pw'')
     = Inr [unit_of 104, unit_of 105]"
  using protect_then_open_eq [OF toy_aes_gcm_sound toy_json_blob_sound]
  by (simp add: surrogate_lost bom_lost)

lemma TextEncoder_encode_inj:
  assumes "isWellFormed a" and "isWellFormed b"
    and "TextEncoder_encode a = TextEncoder_encode b"
  shows "a = b"
proof -
  have dec: "utf8_decode (map unat (TextEncoder_encode s)) = to_usv (map unat s)" for s
  proof -
    let ?bs = "concat (map utf8_encode_cp (to_usv (map unat s)))"
    have r: "list_all (\<lambda>u. u < 65536) (map unat s)" by (simp add: list_all_iff)
    have sc: "list_all is_scalar (to_usv (map unat s))" by (rule to_usv_scalar [OF r])
    have "list_all (\<lambda>b. b < 256) ?bs"
      using sc utf8_encode_cp_bytes by (auto simp add: list_all_iff)
    then have "map unat (map byte_of ?bs) = ?bs"
      by (auto simp add: list_all_iff intro!: map_idI)
    then show ?thesis
      by (simp only: TextEncoder_encode_def utf8_decode_encode [OF sc])
  qed
  have units: "concat (map utf16_units (to_usv (map unat s))) = map unat s"
    if "isWellFormed s" for s
    using that by (simp add: utf16_to_usv isWellFormed_def list_all_iff)
  have "to_usv (map unat a) = to_usv (map unat b)"
    using dec [of a] dec [of b] assms(3) by simp
  then have "concat (map utf16_units (to_usv (map unat a)))
      = concat (map utf16_units (to_usv (map unat b)))"
    by (rule arg_cong)
  then have "map unat a = map unat b"
    by (simp only: units [OF assms(1)] units [OF assms(2)])
  then have "map unit_of (map unat a) = map unit_of (map unat b)" by simp
  then show ?thesis by (simp add: map_idI)
qed

lemma same_bytes_same_result:
  "TextEncoder_encode password1 = TextEncoder_encode password2
     \<Longrightarrow> decryptPrivateKey P blob password1 = decryptPrivateKey P blob password2"
  by (simp add: decryptPrivateKey_def)

lemma hmac_same_key:
  "hmac_key (TextEncoder_encode password1) = hmac_key (TextEncoder_encode password2)
     \<Longrightarrow> decryptPrivateKey hmac_platform blob password1
           = decryptPrivateKey hmac_platform blob password2"
  by (auto simp add: decryptPrivateKey_def hmac_platform_def toy_platform_def andThen_def
      split: sum.splits prod.splits)

lemma byte_of_zero: "byte_of 0 = 0"
  by (simp add: byte_of_def)

lemma byte_of_zero_iff: "n < 256 \<Longrightarrow> byte_of n = 0 \<longleftrightarrow> n = 0"
  using byte_of_eq_iff [of n 0] by (simp add: byte_of_zero)

lemma pw_bytes:
  "TextEncoder_encode (js ''pw'') = [byte_of 112, byte_of 119]"
  "TextEncoder_encode (js ''pw'' @ [unit_of 0]) = [byte_of 112, byte_of 119, 0]"
  by (simp_all add: TextEncoder_encode_def js_def utf8_encode_cp_def is_lead_def is_trail_def
      byte_of_zero)

lemma pw_same_key:
  "hmac_key (TextEncoder_encode (js ''pw'')) = hmac_key (TextEncoder_encode (js ''pw'' @ [unit_of 0]))"
  by (simp add: pw_bytes hmac_key_def byte_of_zero_iff)

lemma pw_differ: "TextEncoder_encode (js ''correct-horse'') \<noteq> TextEncoder_encode (js ''wrong-password'')"
  by (simp add: TextEncoder_encode_def js_def utf8_encode_cp_def is_lead_def is_trail_def)




text \<open>
  Where the salt and the IV of a blob come from. On a sound platform, each call of
  \<open>encryptPrivateKey\<close> draws 16 bytes for the salt and then 12 bytes for the IV from
  \<open>crypto.getRandomValues\<close>, and the blob carries exactly these: of two successive
  calls the first takes bytes 0 to 27 of the random source and the second bytes 28 to
  55, whatever the arguments. Nothing is kept from one call to the next.
\<close>

lemma two_calls_draw_afresh:
  assumes "aes_gcm_sound P" and "json_blob_sound P"
  shows "\<exists>blob1 blob2 ct1 ct2.
           protect_twice P g privateKey password = (Inr blob1, Inr blob2) \<and>
           JSON_parse_blob P blob1 = Inr (map g [0..<16], map g [16..<28], ct1) \<and>
           JSON_parse_blob P blob2 = Inr (map g [28..<44], map g [44..<56], ct2)"
proof -
  define g1 where "g1 = (\<lambda>i. g (28 + i))"
  define salt1 iv1 where "salt1 = map g [0..<16]" and "iv1 = map g [16..<28]"
  define salt2 iv2 where "salt2 = map g1 [0..<16]" and "iv2 = map g1 [16..<28]"
  from encryptPrivateKey_sound [OF assms(1) salt1_def iv1_def, of password privateKey]
  obtain ct1 where
    b1: "encryptPrivateKey P g privateKey password
           = (Inr (JSON_stringify_blob P (salt1, iv1, ct1)), g1)"
    unfolding g1_def by blast
  from encryptPrivateKey_sound [OF assms(1) salt2_def iv2_def, of password privateKey]
  obtain ct2 where
    b2: "encryptPrivateKey P g1 privateKey password
           = (Inr (JSON_stringify_blob P (salt2, iv2, ct2)), (\<lambda>i. g1 (28 + i)))"
    by blast
  have "map g1 [0..<16] = map g (map (\<lambda>i. i + 28) [0..<16])"
    by (simp add: g1_def add.commute)
  also have "\<dots> = map g [28..<44]" by (simp only: map_add_upt) simp
  finally have s2: "salt2 = map g [28..<44]" by (simp add: salt2_def)
  have i2: "iv2 = map g [44..<56]" by (simp add: iv2_def g1_def)
  have p: "JSON_parse_blob P (JSON_stringify_blob P blob) = Inr blob" for blob
    using assms(2) unfolding json_blob_sound_def by blast
  have "protect_twice P g privateKey password
      = (Inr (JSON_stringify_blob P (salt1, iv1, ct1)), Inr (JSON_stringify_blob P (salt2, iv2, ct2)))"
    by (simp add: protect_twice_def b1 b2)
  then show ?thesis
    using p [of "(salt1, iv1, ct1)"] p [of "(salt2, iv2, ct2)"]
    unfolding salt1_def iv1_def s2 i2 by blast
qed

section \<open>Sending, fetching and previewing messages\<close>

lemma getPublicKey_absent:
  "db_serving db \<Longrightarrow> filter (\<lambda>r. uk_user_id r = userId) (db_user_keys db) = []
     \<Longrightarrow> getPublicKey db userId = Inr None"
  by (simp add: getPublicKey_def select_public_key_def try_catch_def andThen_def)

text \<open>
  Claim C6. When \<open>encryptionEnabled\<close> is true (given or by default) and
  \<open>getPublicKey\<close> returns \<open>null\<close> for the receiver, \<open>sendMessage\<close> does not throw and is
  not blocked: it inserts the row with the input plaintext as its content. When the
  database serves the insert, the row is stored with that content and returned; when
  it does not, the call returns \<open>null\<close>, as for any message.
\<close>

theorem sendMessage_without_public_key:
  assumes "getPublicKey db receiverId = Inr None"
    and "encryptionEnabled = None \<or> encryptionEnabled = Some True"
  shows "sendMessage P db entropy senderId receiverId content listingId encryptionEnabled
           = (if db_serving db then
                (Inr (Some \<lparr>msg_id = fst (db_stamp db (length (db_messages db))),
                            msg_sender_id = senderId, msg_receiver_id = receiverId,
                            msg_content = content, msg_is_read = False,
                            msg_created_at = snd (db_stamp db (length (db_messages db))),
                            msg_listing_id = or_null listingId\<rparr>),
                 db\<lparr>db_messages := db_messages db @
                      [\<lparr>msg_id = fst (db_stamp db (length (db_messages db))),
                        msg_sender_id = senderId, msg_receiver_id = receiverId,
                        msg_content = content, msg_is_read = False,
                        msg_created_at = snd (db_stamp db (length (db_messages db))),
                        msg_listing_id = or_null listingId\<rparr>]\<rparr>)
              else (Inr None, db))"
proof -
  have "contentToStore P db entropy receiverId content
          (case encryptionEnabled of None \<Rightarrow> True | Some b \<Rightarrow> b) = Inr content"
    using assms by (auto simp add: contentToStore_def andThen_def nullable_def)
  then show ?thesis
    by (simp add: sendMessage_def insert_message_def try_catch_def andThen_def
        Let_def case_prod_beta)
qed

text \<open>
  User \<open>"alice"\<close> sends \<open>"Hello!"\<close> to \<open>"bob"\<close>, who has no key: the row stored is the
  plaintext.
\<close>

theorem sendMessage_without_public_key_witness:
  "getPublicKey legacy_db (js ''bob'') = Inr None \<and>
   db_messages (snd (sendMessage toy_platform legacy_db 0 (js ''alice'') (js ''bob'')
                       (js ''Hello!'') None None))
     = [\<lparr>msg_id = js ''m1'', msg_sender_id = js ''alice'', msg_receiver_id = js ''bob'',
         msg_content = js ''Hello!'', msg_is_read = False, msg_created_at = js ''2025-01-01'',
         msg_listing_id = None\<rparr>]"
proof -
  have n: "getPublicKey legacy_db (js ''bob'') = Inr None"
    by (rule getPublicKey_absent) (simp_all add: legacy_db_def)
  show ?thesis
    using n sendMessage_without_public_key [OF n, of None toy_platform 0 "js ''alice''"
        "js ''Hello!''" None]
    by (simp add: legacy_db_def or_null_def optional_def)
qed

lemma decryptMessage_eq:
  "decryptMessage P c k
     = Inr (case decryptMessage_try P c k of Inl thrown \<Rightarrow> unable_to_decrypt
            | Inr plaintext \<Rightarrow> plaintext)"
  by (simp add: decryptMessage_def try_catch_def split: sum.splits)

lemma decryptFetched_eq:
  "decryptFetched P userId k msg
     = Inr (if msg_receiver_id msg = userId
            then msg\<lparr>msg_content :=
                   (case decryptMessage_try P (msg_content msg) k of
                      Inl thrown \<Rightarrow> unable_to_decrypt
                    | Inr plaintext \<Rightarrow> plaintext)\<rparr>
            else msg)"
  by (simp add: decryptFetched_def decryptMessage_eq try_catch_def andThen_def)

lemma promise_all_resolved: "promise_all (map (\<lambda>x. Inr (f x)) xs) = Inr (map f xs)"
  by (induction xs) (simp_all add: andThen_def)

text \<open>
  Claim C9, as amended. When the query gives the messages, \<open>getMessages\<close> returns
  them in order, each one unchanged unless a non-empty private key was given and the
  current user is the receiver of the message: every message whose receiver is
  another user, so every message the user sent to someone else, keeps its content as
  stored, and exactly the messages whose receiver is the user have their content
  replaced by what \<open>decryptMessage\<close> returns.
\<close>

theorem getMessages_decrypts_received_only:
  "getMessages P userId privateKey (Inr (Response (Some messages) None))
     = Inr (map (\<lambda>msg.
              case privateKey of
                None \<Rightarrow> msg
              | Some k \<Rightarrow>
                  if k \<noteq> [] \<and> msg_receiver_id msg = userId
                  then msg\<lparr>msg_content :=
                         (case decryptMessage_try P (msg_content msg) k of
                            Inl thrown \<Rightarrow> unable_to_decrypt
                          | Inr plaintext \<Rightarrow> plaintext)\<rparr>
                  else msg)
            messages)"
proof (cases privateKey)
  case None
  then show ?thesis by (simp add: getMessages_def try_catch_def andThen_def)
next
  case (Some k)
  have pa: "promise_all (map (decryptFetched P userId k) messages)
      = Inr (map (\<lambda>msg. if msg_receiver_id msg = userId
            then msg\<lparr>msg_content :=
                   (case decryptMessage_try P (msg_content msg) k of
                      Inl thrown \<Rightarrow> unable_to_decrypt
                    | Inr plaintext \<Rightarrow> plaintext)\<rparr>
            else msg) messages)"
    using promise_all_resolved [of _ messages] by (simp add: decryptFetched_eq [abs_def])
  show ?thesis
  proof (cases "k = []")
    case True
    then show ?thesis
      using Some by (simp add: getMessages_def try_catch_def andThen_def)
  next
    case False
    then show ?thesis
      using Some pa
      by (cases "messages = []")
         (simp_all add: getMessages_def try_catch_def andThen_def Let_def)
  qed
qed

lemma toy_decrypt_hello:
  "decryptMessage_try toy_platform (js ''hello'') (js ''Bw=='') = Inl InvalidCharacterError"
  by (simp add: decryptMessage_try_def base64ToArrayBuffer_def andThen_def atob_hello atob_Bw
      toy_platform_def)

lemma names_differ: "js ''alice'' \<noteq> js ''bob''" "js ''bob'' \<noteq> js ''alice''"
  by (simp_all add: js_def)

text \<open>
  User \<open>"alice"\<close>, holding a key, reads the conversation with \<open>"bob"\<close>, both bodies
  being the legacy plaintext \<open>"hello"\<close>: the message sent by \<open>"alice"\<close> is returned as
  stored, the one received is returned with the marker.
\<close>

theorem getMessages_decrypts_received_only_witness:
  "getMessages toy_platform (js ''alice'') (Some (js ''Bw==''))
     (Inr (Response (Some [stored_message (js ''alice'') (js ''bob'') (js ''hello''),
                           stored_message (js ''bob'') (js ''alice'') (js ''hello'')]) None))
     = Inr [stored_message (js ''alice'') (js ''bob'') (js ''hello''),
            stored_message (js ''bob'') (js ''alice'') unable_to_decrypt]"
  using getMessages_decrypts_received_only [of toy_platform "js ''alice''" "Some (js ''Bw=='')"
      "[stored_message (js ''alice'') (js ''bob'') (js ''hello''),
        stored_message (js ''bob'') (js ''alice'') (js ''hello'')]"]
  by (simp add: stored_message_def toy_decrypt_hello names_differ js_Cons)

text \<open>
  Claim C9 as it is stated, every message the current user sent is returned
  unchanged, fails for a message whose sender and receiver are both the current user:
  the receiver test comes first, so the content is replaced by what \<open>decryptMessage\<close>
  returns.
\<close>

theorem getMessages_decrypts_received_only_counterexample:
  "msg_sender_id (stored_message (js ''alice'') (js ''alice'') (js ''hello'')) = js ''alice'' \<and>
   getMessages toy_platform (js ''alice'') (Some (js ''Bw==''))
     (Inr (Response (Some [stored_message (js ''alice'') (js ''alice'') (js ''hello'')]) None))
     = Inr [stored_message (js ''alice'') (js ''alice'') unable_to_decrypt] \<and>
   unable_to_decrypt \<noteq> js ''hello''"
proof -
  have "unable_to_decrypt \<noteq> js ''hello''"
    by (simp add: unable_to_decrypt_def js_def)
  moreover have "getMessages toy_platform (js ''alice'') (Some (js ''Bw==''))
     (Inr (Response (Some [stored_message (js ''alice'') (js ''alice'') (js ''hello'')]) None))
     = Inr [stored_message (js ''alice'') (js ''alice'') unable_to_decrypt]"
    by (simp add: getMessages_def decryptFetched_eq try_catch_def andThen_def
        stored_message_def toy_decrypt_hello js_Cons)
  ultimately show ?thesis by (simp add: stored_message_def)
qed

lemma lastMessageOf_received:
  assumes "k \<noteq> []" and "msg_receiver_id message = userId"
  shows "lastMessageOf P userId (Some k) message = decryptMessage P (msg_content message) k"
  using assms by (simp add: lastMessageOf_def decryptMessage_eq try_catch_def)

lemma lastMessageOf_resolves: "\<exists>s. lastMessageOf P userId privateKey message = Inr s"
  by (cases privateKey) (simp_all add: lastMessageOf_def decryptMessage_eq try_catch_def)

lemma map_of_keyed_map:
  "map_of (map (\<lambda>(k, v). (k, F k v)) xs) key = map_option (F key) (map_of xs key)"
  by (induction xs) auto

lemma count_unread:
  "(\<lambda>(k, conv). if k = key \<and> u then (k, conv\<lparr>conv_unread_count := conv_unread_count conv + 1\<rparr>)
                    else (k, conv))
     = (\<lambda>(k, conv). (k, if k = key \<and> u then conv\<lparr>conv_unread_count := conv_unread_count conv + 1\<rparr>
                          else conv))"
  by auto

lemma conversationLoop_resolves:
  "\<exists>cm'. conversationLoop P userId privateKey msgs cm = Inr cm'"
proof (induction msgs arbitrary: cm)
  case Nil
  then show ?case by simp
next
  case (Cons message rest)
  obtain s where "lastMessageOf P userId privateKey message = Inr s"
    using lastMessageOf_resolves by blast
  then show ?case using Cons by (simp add: andThen_def)
qed

lemma conversationLoop_keeps:
  assumes "map_of cm key = Some c"
    and "conversationLoop P userId privateKey msgs cm = Inr cm'"
  shows "\<exists>c'. map_of cm' key = Some c' \<and>
           conv_last_message c' = conv_last_message c \<and>
           conv_user_id c' = conv_user_id c \<and>
           conv_last_message_time c' = conv_last_message_time c"
  using assms
proof (induction msgs arbitrary: cm c)
  case Nil
  then show ?case by simp
next
  case (Cons message rest)
  obtain s where s: "lastMessageOf P userId privateKey message = Inr s"
    using lastMessageOf_resolves by blast
  let ?k = "conversationKey userId message"
  show ?case
  proof (cases "map_of cm ?k = None")
    case True
    let ?cm1 = "cm @ [(?k,
                \<lparr>conv_user_id = partnerOf userId message,
                 conv_user_name = [],
                 conv_user_image = None,
                 conv_listing_id = or_else (msg_listing_id message) (js ''general''),
                 conv_listing_title = [],
                 conv_last_message = s,
                 conv_last_message_time = msg_created_at message,
                 conv_unread_count = (if unread userId message then 1 else 0)\<rparr>)]"
    have "map_of ?cm1 key = Some c" using Cons.prems(1) by (simp add: map_add_def)
    moreover have "conversationLoop P userId privateKey rest ?cm1 = Inr cm'"
      using Cons.prems(2) s True by (simp add: andThen_def)
    ultimately show ?thesis by (rule Cons.IH)
  next
    case False
    let ?cm1 = "map (\<lambda>(k, conv).
                   if k = ?k \<and> unread userId message
                   then (k, conv\<lparr>conv_unread_count := conv_unread_count conv + 1\<rparr>)
                   else (k, conv)) cm"
    let ?c1 = "if key = ?k \<and> unread userId message
               then c\<lparr>conv_unread_count := conv_unread_count c + 1\<rparr> else c"
    have "map_of ?cm1 key = Some ?c1"
      using Cons.prems(1) by (simp only: count_unread map_of_keyed_map) simp
    moreover have "conversationLoop P userId privateKey rest ?cm1 = Inr cm'"
      using Cons.prems(2) s False by (simp add: andThen_def)
    ultimately have "\<exists>c'. map_of cm' key = Some c' \<and>
           conv_last_message c' = conv_last_message ?c1 \<and>
           conv_user_id c' = conv_user_id ?c1 \<and>
           conv_last_message_time c' = conv_last_message_time ?c1"
      by (rule Cons.IH)
    then show ?thesis by auto
  qed
qed

lemma conversationLoop_creates:
  assumes "map_of cm key = None"
    and "find (\<lambda>m. conversationKey userId m = key) msgs = Some message"
    and "conversationLoop P userId privateKey msgs cm = Inr cm'"
  shows "\<exists>c'. map_of cm' key = Some c' \<and>
           lastMessageOf P userId privateKey message = Inr (conv_last_message c') \<and>
           conv_user_id c' = partnerOf userId message \<and>
           conv_last_message_time c' = msg_created_at message"
  using assms
proof (induction msgs arbitrary: cm)
  case Nil
  then show ?case by simp
next
  case (Cons m rest)
  obtain s where s: "lastMessageOf P userId privateKey m = Inr s"
    using lastMessageOf_resolves by blast
  let ?k = "conversationKey userId m"
  let ?new = "\<lparr>conv_user_id = partnerOf userId m,
                 conv_user_name = [],
                 conv_user_image = None,
                 conv_listing_id = or_else (msg_listing_id m) (js ''general''),
                 conv_listing_title = [],
                 conv_last_message = s,
                 conv_last_message_time = msg_created_at m,
                 conv_unread_count = (if unread userId m then 1 else 0)\<rparr>"
  let ?upd = "map (\<lambda>(k, conv).
                   if k = ?k \<and> unread userId m
                   then (k, conv\<lparr>conv_unread_count := conv_unread_count conv + 1\<rparr>)
                   else (k, conv)) cm"
  show ?case
  proof (cases "?k = key")
    case True
    then have m: "message = m" using Cons.prems(2) by simp
    have none: "map_of cm ?k = None" using True Cons.prems(1) by simp
    have "map_of (cm @ [(?k, ?new)]) key = Some ?new"
      using True Cons.prems(1) by (simp add: map_add_def)
    moreover have "conversationLoop P userId privateKey rest (cm @ [(?k, ?new)]) = Inr cm'"
      using Cons.prems(3) s none by (simp add: andThen_def)
    ultimately obtain c' where "map_of cm' key = Some c'"
      "conv_last_message c' = conv_last_message ?new"
      "conv_user_id c' = conv_user_id ?new"
      "conv_last_message_time c' = conv_last_message_time ?new"
      using conversationLoop_keeps by blast
    then show ?thesis using s m by simp
  next
    case False
    then have f: "find (\<lambda>m. conversationKey userId m = key) rest = Some message"
      using Cons.prems(2) by simp
    show ?thesis
    proof (cases "map_of cm ?k = None")
      case True
      have "map_of (cm @ [(?k, ?new)]) key = None"
        using False Cons.prems(1) by (simp add: map_add_def)
      moreover have "conversationLoop P userId privateKey rest (cm @ [(?k, ?new)]) = Inr cm'"
        using Cons.prems(3) s True by (simp add: andThen_def)
      ultimately show ?thesis using f Cons.IH by blast
    next
      case notNone: False
      have "map_of ?upd key = None"
        using Cons.prems(1) by (simp only: count_unread map_of_keyed_map) simp
      moreover have "conversationLoop P userId privateKey rest ?upd = Inr cm'"
        using Cons.prems(3) s notNone by (simp add: andThen_def)
      ultimately show ?thesis using f Cons.IH by blast
    qed
  qed
qed

lemma andThen_Inr: "andThen (Inr v) k = k v"
  by (simp add: andThen_def)

lemma enrichment_keeps:
  "conv_last_message (withUserInfo d c) = conv_last_message c"
  "conv_user_id (withUserInfo d c) = conv_user_id c"
  "conv_last_message_time (withUserInfo d c) = conv_last_message_time c"
  "conv_last_message (withListingInfo e c) = conv_last_message c"
  "conv_user_id (withListingInfo e c) = conv_user_id c"
  "conv_last_message_time (withListingInfo e c) = conv_last_message_time c"
  by (simp_all add: withUserInfo_def withListingInfo_def split: option.splits)

lemma getConversations_result:
  assumes "conversationLoop P userId privateKey
             (filter (\<lambda>msg. msg_sender_id msg = userId \<or> msg_receiver_id msg = userId)
                messagesData) [] = Inr cm"
    and "\<forall>ids. \<exists>u. userSettingsQuery ids = Inr u"
    and "\<forall>ids. \<exists>l. listingQuery ids = Inr l"
  shows "\<exists>h. (\<forall>c. conv_last_message (h c) = conv_last_message c \<and>
                 conv_user_id (h c) = conv_user_id c \<and>
                 conv_last_message_time (h c) = conv_last_message_time c) \<and>
             getConversations P userId privateKey (Inr (Response (Some messagesData) None))
                 userSettingsQuery listingQuery
               = Inr (map h (map snd cm))"
proof -
  let ?convs = "map snd cm"
  let ?partnerIds = "map conv_user_id ?convs"
  let ?listingIds = "filter (\<lambda>i. i \<noteq> js ''general'') (map conv_listing_id ?convs)"
  obtain u where u: "userSettingsQuery ?partnerIds = Inr u" using assms(2) by blast
  obtain l where l: "listingQuery ?listingIds = Inr l" using assms(3) by blast
  define h1 where "h1 = (if 0 < length ?partnerIds then withUserInfo (resp_data u) else id)"
  define h2 where "h2 = (if 0 < length ?listingIds then withListingInfo (resp_data l) else id)"
  have keep: "\<forall>c. conv_last_message ((h2 \<circ> h1) c) = conv_last_message c \<and>
                 conv_user_id ((h2 \<circ> h1) c) = conv_user_id c \<and>
                 conv_last_message_time ((h2 \<circ> h1) c) = conv_last_message_time c"
    by (simp add: h1_def h2_def enrichment_keeps)
  have e1: "(if 0 < length ?partnerIds
             then andThen (userSettingsQuery ?partnerIds)
                    (\<lambda>u. Inr (map (withUserInfo (resp_data u)) ?convs))
             else Inr ?convs) = Inr (map h1 ?convs)"
    by (simp add: h1_def u andThen_def del: map_map)
  have e2: "(if 0 < length ?listingIds
             then andThen (listingQuery ?listingIds)
                    (\<lambda>l. Inr (map (withListingInfo (resp_data l)) xs))
             else Inr xs) = Inr (map h2 xs)" for xs
    by (simp add: h2_def l andThen_def del: map_map)
  have "getConversations P userId privateKey (Inr (Response (Some messagesData) None))
                 userSettingsQuery listingQuery
      = Inr (map h2 (map h1 ?convs))"
    by (simp only: getConversations_def try_catch_def andThen_Inr Let_def assms(1) e1 e2
        response.sel option.case sum.case simp_thms if_False)
  then have "getConversations P userId privateKey (Inr (Response (Some messagesData) None))
                 userSettingsQuery listingQuery
      = Inr (map (h2 \<circ> h1) ?convs)"
    by simp
  with keep show ?thesis by blast
qed

lemma marker_not_placeholder: "unable_to_decrypt \<noteq> encrypted_placeholder"
  by (simp add: unable_to_decrypt_def encrypted_placeholder_def js_def)

text \<open>
  Claim C10. In \<open>getConversations\<close> with a non-empty private key, take a conversation
  whose latest message (the first of its key among the fetched messages) was received
  by the current user. Its preview is computed by \<open>decryptMessage\<close>, which always
  resolves, so the \<open>catch\<close> around it never runs and the block gives what
  \<open>decryptMessage\<close> gives. When the enrichment queries resolve, the conversation is in
  the result with that preview; for a message that cannot be decrypted the preview is
  \<open>'[Unable to decrypt message]'\<close>, which is not the lock placeholder.
\<close>

theorem undecryptable_preview:
  assumes "k \<noteq> []"
    and "find (\<lambda>m. conversationKey userId m = key)
           (filter (\<lambda>msg. msg_sender_id msg = userId \<or> msg_receiver_id msg = userId)
              messagesData) = Some message"
    and "msg_receiver_id message = userId"
    and "\<forall>ids. \<exists>u. userSettingsQuery ids = Inr u"
    and "\<forall>ids. \<exists>l. listingQuery ids = Inr l"
  shows "lastMessageOf P userId (Some k) message = decryptMessage P (msg_content message) k \<and>
         (\<exists>s. decryptMessage P (msg_content message) k = Inr s) \<and>
         (\<exists>convs c.
            getConversations P userId (Some k) (Inr (Response (Some messagesData) None))
                userSettingsQuery listingQuery = Inr convs \<and>
            c \<in> set convs \<and>
            conv_user_id c = partnerOf userId message \<and>
            conv_last_message_time c = msg_created_at message \<and>
            decryptMessage P (msg_content message) k = Inr (conv_last_message c) \<and>
            (\<forall>thrown. decryptMessage_try P (msg_content message) k = Inl thrown \<longrightarrow>
               conv_last_message c = unable_to_decrypt \<and>
               conv_last_message c \<noteq> encrypted_placeholder))"
proof -
  let ?filtered = "filter (\<lambda>msg. msg_sender_id msg = userId \<or> msg_receiver_id msg = userId)
                     messagesData"
  have r: "lastMessageOf P userId (Some k) message = decryptMessage P (msg_content message) k"
    by (rule lastMessageOf_received [OF assms(1,3)])
  obtain cm where cm: "conversationLoop P userId (Some k) ?filtered [] = Inr cm"
    using conversationLoop_resolves by blast
  have "map_of ([] :: (jsstring \<times> conversation) list) key = None" by simp
  from conversationLoop_creates [OF this assms(2) cm] obtain c' where
    c': "map_of cm key = Some c'"
      "lastMessageOf P userId (Some k) message = Inr (conv_last_message c')"
      "conv_user_id c' = partnerOf userId message"
      "conv_last_message_time c' = msg_created_at message"
    by blast
  from getConversations_result [OF cm assms(4,5)] obtain h where
    h: "\<forall>c. conv_last_message (h c) = conv_last_message c \<and>
             conv_user_id (h c) = conv_user_id c \<and>
             conv_last_message_time (h c) = conv_last_message_time c"
    and g: "getConversations P userId (Some k) (Inr (Response (Some messagesData) None))
                userSettingsQuery listingQuery = Inr (map h (map snd cm))"
    by blast
  have "(key, c') \<in> set cm" using c'(1) by (rule map_of_SomeD)
  then have "c' \<in> set (map snd cm)" by force
  then have mem: "h c' \<in> set (map h (map snd cm))" by (simp only: set_map imageI)
  have d: "decryptMessage P (msg_content message) k = Inr (conv_last_message (h c'))"
    using r c'(2) h by simp
  have t: "\<forall>thrown. decryptMessage_try P (msg_content message) k = Inl thrown \<longrightarrow>
               conv_last_message (h c') = unable_to_decrypt \<and>
               conv_last_message (h c') \<noteq> encrypted_placeholder"
    using d by (auto simp add: decryptMessage_eq marker_not_placeholder)
  have fields: "conv_user_id (h c') = partnerOf userId message"
    "conv_last_message_time (h c') = msg_created_at message"
    using h c'(3,4) by simp_all
  show ?thesis
  proof (intro conjI)
    show "lastMessageOf P userId (Some k) message = decryptMessage P (msg_content message) k"
      by (rule r)
    show "\<exists>s. decryptMessage P (msg_content message) k = Inr s"
      using d by blast
    show "\<exists>convs c.
            getConversations P userId (Some k) (Inr (Response (Some messagesData) None))
                userSettingsQuery listingQuery = Inr convs \<and>
            c \<in> set convs \<and>
            conv_user_id c = partnerOf userId message \<and>
            conv_last_message_time c = msg_created_at message \<and>
            decryptMessage P (msg_content message) k = Inr (conv_last_message c) \<and>
            (\<forall>thrown. decryptMessage_try P (msg_content message) k = Inl thrown \<longrightarrow>
               conv_last_message c = unable_to_decrypt \<and>
               conv_last_message c \<noteq> encrypted_placeholder)"
      using g mem fields d t by blast
  qed
qed

text \<open>
  User \<open>"alice"\<close>, holding a key, lists the conversations; the only message is the
  legacy plaintext \<open>"hello"\<close> from \<open>"bob"\<close>, which does not decrypt: the preview is
  the marker.
\<close>

theorem undecryptable_preview_witness:
  "js ''Bw=='' \<noteq> [] \<and>
   msg_receiver_id (stored_message (js ''bob'') (js ''alice'') (js ''hello'')) = js ''alice'' \<and>
   decryptMessage_try toy_platform (js ''hello'') (js ''Bw=='') = Inl InvalidCharacterError \<and>
   (\<exists>convs c.
      getConversations toy_platform (js ''alice'') (Some (js ''Bw==''))
          (Inr (Response (Some [stored_message (js ''bob'') (js ''alice'') (js ''hello'')]) None))
          (\<lambda>ids. Inr (Response (Some []) None)) (\<lambda>ids. Inr (Response (Some []) None))
        = Inr convs \<and>
      c \<in> set convs \<and> conv_user_id c = js ''bob'' \<and>
      conv_last_message c = unable_to_decrypt \<and>
      conv_last_message c \<noteq> encrypted_placeholder)"
proof -
  let ?m = "stored_message (js ''bob'') (js ''alice'') (js ''hello'')"
  have k: "js ''Bw=='' \<noteq> []" by (rule js_Cons)
  have f: "find (\<lambda>m. conversationKey (js ''alice'') m = conversationKey (js ''alice'') ?m)
             (filter (\<lambda>msg. msg_sender_id msg = js ''alice'' \<or> msg_receiver_id msg = js ''alice'')
                [?m]) = Some ?m"
    by (simp add: stored_message_def)
  have r: "msg_receiver_id ?m = js ''alice''" by (simp add: stored_message_def)
  have q: "\<forall>ids. \<exists>u. (\<lambda>ids. Inr (Response (Some []) None)
              :: error + user_settings list response) ids = Inr u"
    "\<forall>ids. \<exists>l. (\<lambda>ids. Inr (Response (Some []) None)
              :: error + listing list response) ids = Inr l"
    by simp_all
  have c: "msg_content ?m = js ''hello''" "partnerOf (js ''alice'') ?m = js ''bob''"
    by (simp_all add: stored_message_def partnerOf_def names_differ)
  show ?thesis
    using undecryptable_preview [OF k f r q, of toy_platform] k r c toy_decrypt_hello
    by auto
qed

end
